theory Spec2Isabelle
  imports Complex_Main "HOL-Library.Sublist"
begin

section \<open>Values of the program\<close>

text \<open>
  Every payload the program handles is what \<^verbatim>\<open>json.load\<close> or a response's
  \<^verbatim>\<open>.json()\<close> returned: \<^verbatim>\<open>None\<close>, a bool, an int, a float, a str, a list or a
  dict with str keys. A dict keeps its insertion order, so it is an association list.
  No function below computes with a float; it is carried as the rational it denotes.
\<close>

datatype json =
    JNull
  | JBool bool
  | JInt int
  | JFloat rat
  | JStr string
  | JArr "json list"
  | JObj "(string \<times> json) list"

text \<open>The exceptions the modelled code can raise, as values.\<close>

datatype error =
    KeyError json
  | TypeError
  | IndexError
  | RuntimeError int
  | JSONDecodeError

text \<open>Sequencing of calls that may raise: the first exception ends the computation.\<close>

definition bindE :: "error + 'a \<Rightarrow> ('a \<Rightarrow> error + 'b) \<Rightarrow> error + 'b" where
  "bindE x f = (case x of Inl e \<Rightarrow> Inl e | Inr v \<Rightarrow> f v)"

subsection \<open>Python's operators on these values\<close>

text \<open>\<^verbatim>\<open>not v\<close>: the values Python takes for false.\<close>

fun falsy :: "json \<Rightarrow> bool" where
  "falsy JNull = True"
| "falsy (JBool b) = (\<not> b)"
| "falsy (JInt n) = (n = 0)"
| "falsy (JFloat x) = (x = 0)"
| "falsy (JStr s) = (s = [])"
| "falsy (JArr xs) = (xs = [])"
| "falsy (JObj kvs) = (kvs = [])"

text \<open>\<^verbatim>\<open>v[k]\<close> with a str key: a dict looks the key up, every other value raises.\<close>

fun getitem_str :: "json \<Rightarrow> string \<Rightarrow> error + json" where
  "getitem_str (JObj kvs) k =
     (case map_of kvs k of None \<Rightarrow> Inl (KeyError (JStr k)) | Some v \<Rightarrow> Inr v)"
| "getitem_str JNull k = Inl TypeError"
| "getitem_str (JBool b) k = Inl TypeError"
| "getitem_str (JInt n) k = Inl TypeError"
| "getitem_str (JFloat x) k = Inl TypeError"
| "getitem_str (JStr s) k = Inl TypeError"
| "getitem_str (JArr xs) k = Inl TypeError"


text \<open>\<^verbatim>\<open>k in v\<close> with a str \<^verbatim>\<open>k\<close>: a key of a dict, an element of a list, a
  substring of a str; the other values are not containers.\<close>

fun contains_str :: "string \<Rightarrow> json \<Rightarrow> error + bool" where
  "contains_str k (JObj kvs) = Inr (k \<in> set (map fst kvs))"
| "contains_str k (JArr xs) = Inr (JStr k \<in> set xs)"
| "contains_str k (JStr s) = Inr (sublist k s)"
| "contains_str k JNull = Inl TypeError"
| "contains_str k (JBool b) = Inl TypeError"
| "contains_str k (JInt n) = Inl TypeError"
| "contains_str k (JFloat x) = Inl TypeError"

text \<open>\<^verbatim>\<open>len(v)\<close>.\<close>

fun py_len :: "json \<Rightarrow> error + nat" where
  "py_len (JArr xs) = Inr (length xs)"
| "py_len (JObj kvs) = Inr (length kvs)"
| "py_len (JStr s) = Inr (length s)"
| "py_len JNull = Inl TypeError"
| "py_len (JBool b) = Inl TypeError"
| "py_len (JInt n) = Inl TypeError"
| "py_len (JFloat x) = Inl TypeError"

text \<open>\<^verbatim>\<open>for x in v\<close>: the elements of a list, the keys of a dict, the characters of a
  str.\<close>

fun py_iter :: "json \<Rightarrow> error + json list" where
  "py_iter (JArr xs) = Inr xs"
| "py_iter (JObj kvs) = Inr (map (\<lambda>kv. JStr (fst kv)) kvs)"
| "py_iter (JStr s) = Inr (map (\<lambda>c. JStr [c]) s)"
| "py_iter JNull = Inl TypeError"
| "py_iter (JBool b) = Inl TypeError"
| "py_iter (JInt n) = Inl TypeError"
| "py_iter (JFloat x) = Inl TypeError"

text \<open>\<^verbatim>\<open>d[k] = v\<close> on a dict: an existing key keeps its place and takes the new value, a
  new key goes last.\<close>

fun dict_setitem :: "('k \<times> 'v) list \<Rightarrow> 'k \<Rightarrow> 'v \<Rightarrow> ('k \<times> 'v) list" where
  "dict_setitem [] k v = [(k, v)]"
| "dict_setitem ((k', v') # kvs) k v =
     (if k' = k then (k, v) # kvs else (k', v') # dict_setitem kvs k v)"

text \<open>
  An HTTP response as the code reads it: the status and the body. The body is
  \<open>Some v\<close> when it is the JSON text of the value \<open>v\<close>, and \<open>None\<close> when it is not JSON
  (an HTML error page, an empty body).
\<close>

record response =
  status :: int
  body :: "json option"

text \<open>\<^verbatim>\<open>response.json()\<close>: the decoded body. It raises on a body that is not JSON,
  whatever the status of the response.\<close>

definition response_json :: "response \<Rightarrow> error + json" where
  "response_json r = (case body r of None \<Rightarrow> Inl JSONDecodeError | Some v \<Rightarrow> Inr v)"

section \<open>GitHubProvider\<close>

subsection \<open>get_pull_requests: the paginated issue search\<close>

text \<open>
  The inner \<^verbatim>\<open>for issue_record in data['items']\<close>: the issue's own \<^verbatim>\<open>url\<close> is read
  first (it is only logged), then the \<^verbatim>\<open>url\<close> under \<^verbatim>\<open>pull_request\<close> is appended.
\<close>

fun collect_urls :: "json list \<Rightarrow> json list \<Rightarrow> error + json list" where
  "collect_urls [] pull_request_urls = Inr pull_request_urls"
| "collect_urls (issue_record # rest) pull_request_urls =
     bindE (getitem_str issue_record ''url'') (\<lambda>issue_url.
     bindE (getitem_str issue_record ''pull_request'') (\<lambda>pr.
     bindE (getitem_str pr ''url'') (\<lambda>pull_request_url.
       collect_urls rest (pull_request_urls @ [pull_request_url]))))"

text \<open>One pass of the \<^verbatim>\<open>while True\<close> body on the decoded page \<open>data\<close>: leave the loop,
  go on to the next page with the longer list, or raise.\<close>

datatype page_outcome = Stop | Continue "json list" | Fail error

definition page_step :: "json \<Rightarrow> json list \<Rightarrow> page_outcome" where
  "page_step data pull_request_urls =
     (case contains_str ''items'' data of
        Inl e \<Rightarrow> Fail e
      | Inr False \<Rightarrow> Stop
      | Inr True \<Rightarrow>
          (case bindE (getitem_str data ''items'') py_len of
             Inl e \<Rightarrow> Fail e
           | Inr n \<Rightarrow>
               if n = 0 then Stop
               else (case bindE (bindE (getitem_str data ''items'') py_iter)
                                (\<lambda>records. collect_urls records pull_request_urls) of
                       Inl e \<Rightarrow> Fail e
                     | Inr urls \<Rightarrow> Continue urls)))"

text \<open>
  The loop. \<open>get url headers page\<close> is what \<^verbatim>\<open>requests.get(url, headers=headers,
  params={'page': page})\<close> answers; \<^verbatim>\<open>.json()\<close> is called on it at once, and the status
  of the response is never read. The loop has no bound of its own: a server that always
  returns items keeps it running, and then the value is \<open>None\<close>.
\<close>

partial_function (option) pull_requests_loop ::
  "(int \<Rightarrow> response) \<Rightarrow> int \<Rightarrow> json list \<Rightarrow> (error + json list) option" where
  "pull_requests_loop get_page page pull_request_urls =
     (case response_json (get_page page) of
        Inl e \<Rightarrow> Some (Inl e)
      | Inr data \<Rightarrow>
          (case page_step data pull_request_urls of
             Stop \<Rightarrow> Some (Inr pull_request_urls)
           | Fail e \<Rightarrow> Some (Inl e)
           | Continue urls \<Rightarrow> pull_requests_loop get_page (page + 1) urls))"

declare pull_requests_loop.simps [code]

type_synonym headers = "(string \<times> string) list"

definition get_pull_requests ::
  "(string \<Rightarrow> headers \<Rightarrow> int \<Rightarrow> response) \<Rightarrow> string \<Rightarrow> headers
     \<Rightarrow> (error + json list) option" where
  "get_pull_requests get url headers = pull_requests_loop (get url headers) 1 []"

subsection \<open>get_comments and get_pull_request_pull: one conversation\<close>

text \<open>
  A message of a conversation, the dict \<^verbatim>\<open>{'role': ..., 'content': ...}\<close>. The content
  is the JSON value the payload held.
\<close>

record message =
  role :: string
  content :: json

text \<open>
  \<open>session url headers\<close> is the decoded body of the response to \<^verbatim>\<open>await
  session.get(url, headers=headers)\<close>; no status is read on this path either. A body
  that is not JSON raises inside \<^verbatim>\<open>.json()\<close> before any of the code below runs, and
  no conversation is fetched then; the conversations below are those of bodies that decode.
  The URL of a request comes out of a payload, and the HTTP client refuses one that is not
  a str.
\<close>

type_synonym session = "string \<Rightarrow> headers \<Rightarrow> json"

fun session_get :: "session \<Rightarrow> json \<Rightarrow> headers \<Rightarrow> error + json" where
  "session_get session (JStr url) headers = Inr (session url headers)"
| "session_get session JNull headers = Inl TypeError"
| "session_get session (JBool b) headers = Inl TypeError"
| "session_get session (JInt n) headers = Inl TypeError"
| "session_get session (JFloat x) headers = Inl TypeError"
| "session_get session (JArr xs) headers = Inl TypeError"
| "session_get session (JObj kvs) headers = Inl TypeError"

text \<open>
  The \<^verbatim>\<open>for comment in comments_json\<close> loop of \<^verbatim>\<open>get_comments\<close>. The two logins
  are compared with \<^verbatim>\<open>==\<close>; on the strings that the endpoint returns this is equality of
  the values.
\<close>

fun comments_loop :: "json \<Rightarrow> json list \<Rightarrow> message list \<Rightarrow> error + message list" where
  "comments_loop student_login [] comments = Inr comments"
| "comments_loop student_login (comment # rest) comments =
     bindE (getitem_str comment ''user'') (\<lambda>user.
     bindE (getitem_str user ''login'') (\<lambda>author_login.
       let role_name = (if author_login = student_login then ''user'' else ''assistant'') in
       bindE (getitem_str comment ''body'') (\<lambda>content.
         if falsy content then comments_loop student_login rest comments
         else comments_loop student_login rest
                (comments @ [\<lparr>role = role_name, content = content\<rparr>]))))"

definition get_comments :: "session \<Rightarrow> json \<Rightarrow> headers \<Rightarrow> json \<Rightarrow> error + message list" where
  "get_comments session data_url headers student_login =
     bindE (session_get session data_url headers) (\<lambda>comments_json.
     bindE (py_iter comments_json) (\<lambda>comments.
       comments_loop student_login comments []))"

record pull =
  pull_url :: string
  pull_messages :: "message list"

text \<open>
  The pull is fetched with the URL the search returned; only a str gets past the HTTP
  client, and that str is the \<^verbatim>\<open>url\<close> of the result.
\<close>

fun get_pull_request_pull :: "session \<Rightarrow> json \<Rightarrow> headers \<Rightarrow> error + pull" where
  "get_pull_request_pull session (JStr url) headers =
     (let pull_request = session url headers in
      bindE (getitem_str pull_request ''user'') (\<lambda>user.
      bindE (getitem_str user ''login'') (\<lambda>student_login.
      bindE (getitem_str pull_request ''body'') (\<lambda>pull_body.
        let messages = (if falsy pull_body then []
                        else [\<lparr>role = ''user'', content = pull_body\<rparr>]) in
        bindE (getitem_str pull_request ''comments_url'') (\<lambda>comments_url.
        bindE (get_comments session comments_url headers student_login) (\<lambda>comments.
        bindE (getitem_str pull_request ''review_comments_url'') (\<lambda>review_comments_url.
        bindE (get_comments session review_comments_url headers student_login) (\<lambda>review_comments.
          Inr \<lparr>pull_url = url,
               pull_messages = messages @ comments @ review_comments\<rparr>))))))))"
| "get_pull_request_pull session JNull headers = Inl TypeError"
| "get_pull_request_pull session (JBool b) headers = Inl TypeError"
| "get_pull_request_pull session (JInt n) headers = Inl TypeError"
| "get_pull_request_pull session (JFloat x) headers = Inl TypeError"
| "get_pull_request_pull session (JArr xs) headers = Inl TypeError"
| "get_pull_request_pull session (JObj kvs) headers = Inl TypeError"

subsection \<open>get_pull_request_pulls: search, then every conversation\<close>

record github_config =
  org_name :: string
  repo_name :: string
  api_url :: string
  api_token :: string
  search_label :: string


text \<open>
  \<^verbatim>\<open>asyncio.gather\<close> over one task per URL: the results come back in the order of
  the URLs, and an exception of a task is raised to the caller. The answers of the
  session do not depend on the order of the requests, so the tasks are run one after the
  other; when several would raise, the one reported here is the leftmost. The loop that
  closes \<^verbatim>\<open>get_pull_request_pulls\<close> copies the gathered pulls into a new list, one by
  one and in order, so its result is the gathered list.
\<close>

fun gather_pulls :: "session \<Rightarrow> headers \<Rightarrow> json list \<Rightarrow> error + pull list" where
  "gather_pulls session headers [] = Inr []"
| "gather_pulls session headers (pull_request_url # rest) =
     bindE (get_pull_request_pull session pull_request_url headers) (\<lambda>p.
     bindE (gather_pulls session headers rest) (\<lambda>ps. Inr (p # ps)))"




section \<open>OpenAiProvider\<close>

subsection \<open>The objects the provider shares, and what it does to the outside\<close>

text \<open>
  The data template is one dict object that the configuration holds for the whole run,
  and \<^verbatim>\<open>get_completion\<close> assigns into a dict. Whether that assignment reaches the
  template depends on which object it hits, so dict objects live in a store and are named
  by their position in it. What a call does to the outside is recorded in order: the
  requests it posts and the time it sleeps.
\<close>

type_synonym dict = "(string \<times> json) list"

datatype effect = Post string headers json | Sleep nat

record world =
  objects :: "dict list"
  trace :: "effect list"

record openai_config =
  completions_url :: string
  uaa_url :: string
  client_id :: string
  client_secret :: string
  data_template :: nat

record openai_provider =
  config :: openai_config
  access_token :: string

record completion_result =
  group_name :: string
  completion :: json

text \<open>A message as it is serialised into the request body.\<close>

definition message_json :: "message \<Rightarrow> json" where
  "message_json m = JObj [(''role'', JStr (role m)), (''content'', content m)]"

text \<open>
  \<^verbatim>\<open>json.loads(json.dumps(d))\<close> on a dict that was itself parsed from JSON: a new object
  with an equal value. The new object is what \<open>copy_template\<close> allocates; the value is
  the one read.
\<close>

definition copy_template :: "nat \<Rightarrow> world \<Rightarrow> nat \<times> world" where
  "copy_template template w =
     (length (objects w), w\<lparr>objects := objects w @ [objects w ! template]\<rparr>)"

text \<open>\<^verbatim>\<open>data[k] = v\<close> on the dict object \<open>data\<close>.\<close>

definition store_setitem :: "nat \<Rightarrow> string \<Rightarrow> json \<Rightarrow> world \<Rightarrow> world" where
  "store_setitem data k v w =
     w\<lparr>objects := (objects w)[data := dict_setitem (objects w ! data) k v]\<rparr>"

record request =
  req_url :: string
  req_headers :: headers
  req_data :: nat

text \<open>The head of \<^verbatim>\<open>get_completion\<close>, before its loop: the copy of the template with
  the messages assigned, the headers and the URL.\<close>

definition prepare_request :: "openai_provider \<Rightarrow> message list \<Rightarrow> world \<Rightarrow> request \<times> world" where
  "prepare_request p messages w =
     (let (data, w1) = copy_template (data_template (config p)) w;
          w2 = store_setitem data ''messages'' (JArr (map message_json messages)) w1;
          headers = [(''Authorization'', ''Bearer '' @ access_token p),
                     (''Content-Type'', ''application/json'')]
      in (\<lparr>req_url = completions_url (config p), req_headers = headers, req_data = data\<rparr>, w2))"

text \<open>\<^verbatim>\<open>session.post(completions_url, headers=headers, json=data)\<close>: the body is what the
  dict holds when the request is sent.\<close>

definition posted :: "request \<Rightarrow> world \<Rightarrow> effect" where
  "posted req w = Post (req_url req) (req_headers req) (JObj (objects w ! req_data req))"

definition post :: "request \<Rightarrow> world \<Rightarrow> world" where
  "post req w = w\<lparr>trace := trace w @ [posted req w]\<rparr>"

text \<open>\<^verbatim>\<open>time.sleep(n)\<close>.\<close>

definition sleep :: "nat \<Rightarrow> world \<Rightarrow> world" where
  "sleep n w = w\<lparr>trace := trace w @ [Sleep n]\<rparr>"

subsection \<open>get_completion\<close>

text \<open>
  What the loop does with one response. The body is decoded first
  (\<^verbatim>\<open>response_json = await response.json()\<close>), then the status is read and the three
  branches on it follow: the call returns, goes round again, or raises.
\<close>

datatype attempt = Completed completion_result | Overloaded | Raised error

definition on_response :: "string \<Rightarrow> response \<Rightarrow> attempt" where
  "on_response name r =
     (case response_json r of
        Inl e \<Rightarrow> Raised e
      | Inr decoded \<Rightarrow>
          if status r = 200 then Completed \<lparr>group_name = name, completion = decoded\<rparr>
          else if status r = 500 then Overloaded
          else Raised (RuntimeError (status r)))"

text \<open>
  The \<^verbatim>\<open>while True\<close> loop of one call running alone. The list holds the responses the
  endpoint gives to the successive requests of the call; when it is used up the call is
  still waiting for an answer and has not returned, which is the value \<open>None\<close>.
\<close>

fun completion_loop ::
  "request \<Rightarrow> string \<Rightarrow> response list \<Rightarrow> world \<Rightarrow> (error + completion_result) option \<times> world" where
  "completion_loop req name [] w = (None, post req w)"
| "completion_loop req name (r # rs) w =
     (case on_response name r of
        Completed result \<Rightarrow> (Some (Inr result), post req w)
      | Overloaded \<Rightarrow> completion_loop req name rs (sleep 1 (post req w))
      | Raised e \<Rightarrow> (Some (Inl e), post req w))"

definition get_completion ::
  "openai_provider \<Rightarrow> string \<Rightarrow> message list \<Rightarrow> response list \<Rightarrow> world
     \<Rightarrow> (error + completion_result) option \<times> world" where
  "get_completion p name messages responses w =
     (let (req, w1) = prepare_request p messages w in completion_loop req name responses w1)"

subsection \<open>get_completions: the fan-out\<close>

text \<open>
  \<^verbatim>\<open>asyncio.gather\<close> runs one task per group on one thread. A task runs until it waits
  for the answer to its request; the next thing that happens to it is that answer. The
  environment decides which waiting task is answered next and with what: an event
  \<open>(i, r)\<close> hands response \<open>r\<close> to task \<open>i\<close>. An event for a task that is not waiting
  (finished, or no such task) is dropped.
\<close>

datatype task = Waiting string request | Finished completion_result

definition start_task :: "openai_provider \<Rightarrow> string \<times> message list \<Rightarrow> world \<Rightarrow> task \<times> world" where
  "start_task p item w =
     (let (req, w1) = prepare_request p (snd item) w in (Waiting (fst item) req, post req w1))"

text \<open>The tasks start in the order of \<^verbatim>\<open>message_groups.items()\<close>, each up to its first
  request.\<close>

fun start_tasks ::
  "openai_provider \<Rightarrow> (string \<times> message list) list \<Rightarrow> world \<Rightarrow> task list \<times> world" where
  "start_tasks p [] w = ([], w)"
| "start_tasks p (item # items) w =
     (let (t, w1) = start_task p item w;
          (ts, w2) = start_tasks p items w1
      in (t # ts, w2))"

text \<open>The results of the tasks, in the order of the tasks, once every one has finished.\<close>

fun gathered :: "task list \<Rightarrow> completion_result list option" where
  "gathered [] = Some []"
| "gathered (Finished result # ts) =
     (case gathered ts of None \<Rightarrow> None | Some results \<Rightarrow> Some (result # results))"
| "gathered (Waiting name req # ts) = None"

text \<open>
  The event loop: it returns the gathered results as soon as every task has finished,
  raises the exception of the first task that raises, and is still waiting when the events
  are used up.
\<close>

fun run_tasks ::
  "task list \<Rightarrow> (nat \<times> response) list \<Rightarrow> world \<Rightarrow> (error + completion_result list) option \<times> world" where
  "run_tasks ts [] w =
     (case gathered ts of
        Some results \<Rightarrow> (Some (Inr results), w)
      | None \<Rightarrow> (None, w))"
| "run_tasks ts ((i, r) # rest) w =
     (case gathered ts of
        Some results \<Rightarrow> (Some (Inr results), w)
      | None \<Rightarrow>
          if i < length ts then
            (case ts ! i of
               Finished result \<Rightarrow> run_tasks ts rest w
             | Waiting name req \<Rightarrow>
                 (case on_response name r of
                    Completed result \<Rightarrow> run_tasks (ts[i := Finished result]) rest w
                  | Overloaded \<Rightarrow> run_tasks ts rest (post req (sleep 1 w))
                  | Raised e \<Rightarrow> (Some (Inl e), w)))
          else run_tasks ts rest w)"

definition get_completions ::
  "openai_provider \<Rightarrow> (string \<times> message list) list \<Rightarrow> (nat \<times> response) list \<Rightarrow> world
     \<Rightarrow> (error + completion_result list) option \<times> world" where
  "get_completions p message_groups events w =
     (let (ts, w1) = start_tasks p message_groups w in run_tasks ts events w1)"

section \<open>ReportGenerator\<close>

record report_config =
  grounding_prompt :: string
  pull_prompt :: string
  overview_prompt :: string

record report_generator =
  report :: report_config
  github :: github_config
  openai :: openai_provider

record pull_analysis =
  analysis_url :: string
  analysis :: json

record summary_report =
  prompts_grounding :: string
  prompts_pull :: string
  prompts_overview :: string
  summary :: json
  pulls :: "pull_analysis list"


subsection \<open>generate_summary_report\<close>





subsection \<open>generate_pulls_report\<close>





subsection \<open>generate_report\<close>


section \<open>Notions of the specification\<close>

text \<open>A computation on every element of a list that stops at the first one that raises.\<close>

fun mapE :: "('a \<Rightarrow> error + 'b) \<Rightarrow> 'a list \<Rightarrow> error + 'b list" where
  "mapE f [] = Inr []"
| "mapE f (x # xs) = bindE (f x) (\<lambda>y. bindE (mapE f xs) (\<lambda>ys. Inr (y # ys)))"

subsection \<open>Issue search\<close>

text \<open>
  The paired pull-request URL of an issue record is the \<^verbatim>\<open>url\<close> under its
  \<^verbatim>\<open>pull_request\<close>; the record must also carry its own \<^verbatim>\<open>url\<close>.
\<close>

definition paired_pull_url :: "json \<Rightarrow> error + json" where
  "paired_pull_url issue_record =
     bindE (getitem_str issue_record ''url'') (\<lambda>issue_url.
     bindE (getitem_str issue_record ''pull_request'') (\<lambda>pr. getitem_str pr ''url''))"

text \<open>
  What a result list contributes: a list contributes the paired URL of each of its
  records, in order, or the exception of the first record without one. An \<^verbatim>\<open>items\<close>
  that is an empty object or an empty string has length 0 like the empty list; a non-empty
  one holds no issue record, and a value without a length is no result list at all.
\<close>

fun items_urls :: "json \<Rightarrow> error + json list" where
  "items_urls (JArr records) = mapE paired_pull_url records"
| "items_urls (JObj members) = (if members = [] then Inr [] else Inl TypeError)"
| "items_urls (JStr s) = (if s = [] then Inr [] else Inl TypeError)"
| "items_urls JNull = Inl TypeError"
| "items_urls (JBool b) = Inl TypeError"
| "items_urls (JInt n) = Inl TypeError"
| "items_urls (JFloat x) = Inl TypeError"

text \<open>
  What a decoded page contributes. An object has a result list when it has the member
  \<^verbatim>\<open>items\<close>. A list or a string is not the shape of a search response; without
  \<^verbatim>\<open>items\<close> among its elements, or inside it, it counts as a response with no result
  list, and with it the lookup of the result list raises. The other values are no
  containers.
\<close>

fun page_urls_of :: "json \<Rightarrow> error + json list" where
  "page_urls_of (JObj kvs) =
     (case map_of kvs ''items'' of None \<Rightarrow> Inr [] | Some v \<Rightarrow> items_urls v)"
| "page_urls_of (JArr xs) = (if JStr ''items'' \<in> set xs then Inl TypeError else Inr [])"
| "page_urls_of (JStr s) = (if sublist ''items'' s then Inl TypeError else Inr [])"
| "page_urls_of JNull = Inl TypeError"
| "page_urls_of (JBool b) = Inl TypeError"
| "page_urls_of (JInt n) = Inl TypeError"
| "page_urls_of (JFloat x) = Inl TypeError"

text \<open>
  What one response of the search contributes, whatever its status: the empty list when
  it has no result list or an empty one, the paired URLs of its records when it has
  results, an exception when its body is not JSON or is malformed.
\<close>

definition page_urls :: "response \<Rightarrow> error + json list" where
  "page_urls r = (case body r of None \<Rightarrow> Inl JSONDecodeError | Some data \<Rightarrow> page_urls_of data)"

definition has_results :: "response \<Rightarrow> bool" where
  "has_results r = (case page_urls r of Inl e \<Rightarrow> False | Inr us \<Rightarrow> us \<noteq> [])"

subsection \<open>Completion requests\<close>

text \<open>The body of a completion request: the data template with its \<^verbatim>\<open>messages\<close> field
  replaced by the submitted messages.\<close>

definition request_body :: "dict \<Rightarrow> message list \<Rightarrow> dict" where
  "request_body template messages =
     dict_setitem template ''messages'' (JArr (map message_json messages))"


subsection \<open>Fan-out\<close>

text \<open>The group a task works for, and what a successful answer does to the tasks.\<close>

fun task_name :: "task \<Rightarrow> string" where
  "task_name (Waiting name req) = name"
| "task_name (Finished result) = group_name result"

fun finish :: "task list \<Rightarrow> nat \<times> response \<Rightarrow> task list" where
  "finish ts (i, r) =
     (if i < length ts
      then (case ts ! i of
              Waiting name req \<Rightarrow>
                (case body r of
                   Some c \<Rightarrow> ts[i := Finished \<lparr>group_name = name, completion = c\<rparr>]
                 | None \<Rightarrow> ts)
            | Finished result \<Rightarrow> ts)
      else ts)"




subsection \<open>Conversations\<close>

text \<open>
  What a comment (or the pull itself) says: its author's login under \<^verbatim>\<open>user\<close>, and its
  \<^verbatim>\<open>body\<close>. A payload has both when the two lookups succeed. The comments listed under
  a key of the pull are what the loop over the answer of the URL stored there goes through. A comment is kept
  when its body is not empty; the message of a kept comment is tagged by comparing its
  author with the requester.
\<close>

definition comment_author :: "json \<Rightarrow> error + json" where
  "comment_author c = bindE (getitem_str c ''user'') (\<lambda>user. getitem_str user ''login'')"

definition author_login_of :: "json \<Rightarrow> json" where
  "author_login_of c = (case comment_author c of Inr login \<Rightarrow> login | Inl e \<Rightarrow> JNull)"

definition body_of :: "json \<Rightarrow> json" where
  "body_of c = (case getitem_str c ''body'' of Inr b \<Rightarrow> b | Inl e \<Rightarrow> JNull)"

definition has_author_and_body :: "json \<Rightarrow> bool" where
  "has_author_and_body c =
     (case comment_author c of
        Inl e \<Rightarrow> False
      | Inr login \<Rightarrow> (case getitem_str c ''body'' of Inl e \<Rightarrow> False | Inr b \<Rightarrow> True))"

definition listed_comments :: "session \<Rightarrow> headers \<Rightarrow> json \<Rightarrow> string \<Rightarrow> json list option" where
  "listed_comments session headers pull_request k =
     (case getitem_str pull_request k of
        Inr (JStr u) \<Rightarrow>
          (case py_iter (session u headers) of Inr cs \<Rightarrow> Some cs | Inl e \<Rightarrow> None)
      | _ \<Rightarrow> None)"

definition comment_message :: "json \<Rightarrow> json \<Rightarrow> message" where
  "comment_message requester c =
     \<lparr>role = (if author_login_of c = requester then ''user'' else ''assistant''),
      content = body_of c\<rparr>"

definition body_messages :: "json \<Rightarrow> message list" where
  "body_messages pull_request =
     (if falsy (body_of pull_request) then []
      else [\<lparr>role = ''user'', content = body_of pull_request\<rparr>])"

definition kept :: "json list \<Rightarrow> json list" where
  "kept cs = filter (\<lambda>c. \<not> falsy (body_of c)) cs"

subsection \<open>The summary request\<close>


section \<open>Example inputs\<close>

definition issue_record :: "string \<Rightarrow> string \<Rightarrow> json" where
  "issue_record issue_url pr_url =
     JObj [(''url'', JStr issue_url), (''title'', JStr ''a pull''),
           (''pull_request'', JObj [(''url'', JStr pr_url)])]"

text \<open>A search that answers the first page and then refuses with status 403.\<close>

definition rate_limited_search :: "string \<Rightarrow> headers \<Rightarrow> int \<Rightarrow> response" where
  "rate_limited_search url headers page =
     (if page = 1
      then \<lparr>status = 200,
            body = Some (JObj [(''total_count'', JInt 2),
                               (''items'', JArr [issue_record ''api/issues/1'' ''api/pulls/1''])])\<rparr>
      else \<lparr>status = 403, body = Some (JObj [(''message'', JStr ''API rate limit exceeded'')])\<rparr>)"

text \<open>A search with two pages of one record each, and empty pages after them.\<close>

definition two_page_search :: "string \<Rightarrow> headers \<Rightarrow> int \<Rightarrow> response" where
  "two_page_search url headers page =
     (if page = 1
      then \<lparr>status = 200,
            body = Some (JObj [(''items'', JArr [issue_record ''api/issues/1'' ''api/pulls/1''])])\<rparr>
      else if page = 2
      then \<lparr>status = 200,
            body = Some (JObj [(''items'', JArr [issue_record ''api/issues/2'' ''api/pulls/2''])])\<rparr>
      else \<lparr>status = 200, body = Some (JObj [(''items'', JArr [])])\<rparr>)"

text \<open>The search of the repository's own test: every page is the empty list.\<close>

definition empty_list_search :: "string \<Rightarrow> headers \<Rightarrow> int \<Rightarrow> response" where
  "empty_list_search url headers page = \<lparr>status = 200, body = Some (JArr [])\<rparr>"

text \<open>Searches whose second response is malformed: \<^verbatim>\<open>items\<close> is \<^verbatim>\<open>null\<close>, the body
  is not JSON, an issue record has no \<^verbatim>\<open>pull_request\<close>.\<close>

definition null_items_search :: "string \<Rightarrow> headers \<Rightarrow> int \<Rightarrow> response" where
  "null_items_search url headers page =
     (if page = 1
      then \<lparr>status = 200,
            body = Some (JObj [(''items'', JArr [issue_record ''api/issues/1'' ''api/pulls/1''])])\<rparr>
      else \<lparr>status = 200, body = Some (JObj [(''items'', JNull)])\<rparr>)"

definition gateway_error_search :: "string \<Rightarrow> headers \<Rightarrow> int \<Rightarrow> response" where
  "gateway_error_search url headers page =
     (if page = 1
      then \<lparr>status = 200,
            body = Some (JObj [(''items'', JArr [issue_record ''api/issues/1'' ''api/pulls/1''])])\<rparr>
      else \<lparr>status = 502, body = None\<rparr>)"

definition plain_issue_search :: "string \<Rightarrow> headers \<Rightarrow> int \<Rightarrow> response" where
  "plain_issue_search url headers page =
     (if page = 1
      then \<lparr>status = 200,
            body = Some (JObj [(''items'', JArr [issue_record ''api/issues/1'' ''api/pulls/1''])])\<rparr>
      else \<lparr>status = 200,
            body = Some (JObj [(''items'', JArr [JObj [(''url'', JStr ''api/issues/2'')]])])\<rparr>)"

text \<open>A search that has one more record on every page.\<close>

definition endless_search :: "string \<Rightarrow> headers \<Rightarrow> int \<Rightarrow> response" where
  "endless_search url headers page =
     \<lparr>status = 200,
      body = Some (JObj [(''items'', JArr [issue_record ''api/issues/1'' ''api/pulls/1''])])\<rparr>"

text \<open>A provider, its data template as the only object of the store, one message, and
  responses of the completion endpoint.\<close>

definition example_template :: dict where
  "example_template =
     [(''deployment_id'', JStr ''gpt-mock''), (''messages'', JArr []),
      (''max_tokens'', JInt 4000), (''temperature'', JFloat (7 / 10)),
      (''stop'', JNull)]"

definition example_world :: world where
  "example_world = \<lparr>objects = [example_template], trace = []\<rparr>"

definition example_provider :: openai_provider where
  "example_provider =
     \<lparr>config = \<lparr>completions_url = ''https://openai.mock/completions'',
                uaa_url = ''https://uaa.mock'', client_id = ''mock-id'',
                client_secret = ''mock-secret'', data_template = 0\<rparr>,
      access_token = ''mock-token''\<rparr>"

definition example_messages :: "message list" where
  "example_messages = [\<lparr>role = ''user'', content = JStr ''mock_comment''\<rparr>]"

definition completion_body :: "string \<Rightarrow> json" where
  "completion_body text =
     JObj [(''choices'', JArr [JObj [(''message'', JObj [(''content'', JStr text)])]])]"

definition overloaded_response :: response where
  "overloaded_response = \<lparr>status = 500, body = Some (JObj [(''error'', JStr ''overloaded'')])\<rparr>"

definition ok_response :: "string \<Rightarrow> response" where
  "ok_response text = \<lparr>status = 200, body = Some (completion_body text)\<rparr>"

text \<open>A response whose body is not JSON, with the given status.\<close>

definition html_response :: "int \<Rightarrow> response" where
  "html_response code = \<lparr>status = code, body = None\<rparr>"

definition teapot_response :: response where
  "teapot_response = \<lparr>status = 418, body = Some (JObj [(''error'', JStr ''teapot'')])\<rparr>"

definition example_request :: effect where
  "example_request =
     Post ''https://openai.mock/completions''
       [(''Authorization'', ''Bearer mock-token''), (''Content-Type'', ''application/json'')]
       (JObj [(''deployment_id'', JStr ''gpt-mock''),
              (''messages'', JArr [JObj [(''role'', JStr ''user''), (''content'', JStr ''mock_comment'')]]),
              (''max_tokens'', JInt 4000), (''temperature'', JFloat (7 / 10)),
              (''stop'', JNull)])"

text \<open>Two groups; the second is answered first, the first is overloaded once.\<close>

definition example_groups :: "(string \<times> message list) list" where
  "example_groups = [(''api/pulls/1'', example_messages), (''api/pulls/2'', example_messages)]"

definition example_events :: "(nat \<times> response) list" where
  "example_events =
     [(1, ok_response ''second''), (0, overloaded_response), (0, ok_response ''first'')]"



definition example_results :: "completion_result list" where
  "example_results =
     [\<lparr>group_name = ''api/pulls/1'', completion = completion_body ''first''\<rparr>,
      \<lparr>group_name = ''api/pulls/2'', completion = completion_body ''second''\<rparr>]"

text \<open>A conversation: a pull by \<^verbatim>\<open>student\<close> with a body, three general comments (one
  with an empty body) and two review comments (one with no body).\<close>

definition gh_comment :: "string \<Rightarrow> json \<Rightarrow> json" where
  "gh_comment login b =
     JObj [(''id'', JInt 7), (''user'', JObj [(''login'', JStr login), (''id'', JInt 1)]),
           (''body'', b)]"

definition example_session :: session where
  "example_session url headers =
     (if url = ''api/pulls/1'' then
        JObj [(''user'', JObj [(''login'', JStr ''student'')]),
              (''body'', JStr ''mock_body''),
              (''comments_url'', JStr ''api/issues/1/comments''),
              (''review_comments_url'', JStr ''api/pulls/1/comments'')]
      else if url = ''api/issues/1/comments'' then
        JArr [gh_comment ''reviewer'' (JStr ''mock_comment''),
              gh_comment ''student'' (JStr []),
              gh_comment ''student'' (JStr ''thanks'')]
      else if url = ''api/pulls/1/comments'' then
        JArr [gh_comment ''reviewer'' JNull, gh_comment ''reviewer'' (JStr ''nit'')]
      else JNull)"

definition example_pull :: pull where
  "example_pull =
     \<lparr>pull_url = ''api/pulls/1'',
      pull_messages =
        [\<lparr>role = ''user'', content = JStr ''mock_body''\<rparr>,
         \<lparr>role = ''assistant'', content = JStr ''mock_comment''\<rparr>,
         \<lparr>role = ''user'', content = JStr ''thanks''\<rparr>,
         \<lparr>role = ''assistant'', content = JStr ''nit''\<rparr>]\<rparr>"





section \<open>Properties\<close>

subsection \<open>Sequencing\<close>

lemma bindE_simps [simp]: "bindE (Inl e) f = Inl e" "bindE (Inr v) f = f v"
  by (simp_all add: bindE_def)

lemma bindE_assoc: "bindE (bindE x f) g = bindE x (\<lambda>v. bindE (f v) g)"
  by (cases x) simp_all

lemma mapE_append:
  "mapE f (xs @ ys) = bindE (mapE f xs) (\<lambda>a. bindE (mapE f ys) (\<lambda>b. Inr (a @ b)))"
proof (induction xs)
  case Nil
  show ?case by (cases "mapE f ys") simp_all
next
  case (Cons x xs)
  show ?case
  proof (cases "f x")
    case (Inl e) then show ?thesis by simp
  next
    case (Inr y)
    show ?thesis
    proof (cases "mapE f xs")
      case (Inl e) with Inr Cons show ?thesis by simp
    next
      case (Inr zs)
      with \<open>f x = Inr y\<close> Cons show ?thesis by (cases "mapE f ys") simp_all
    qed
  qed
qed

subsection \<open>Issue search\<close>

lemma mapE_length: "mapE f xs = Inr ys \<Longrightarrow> length ys = length xs"
proof (induction xs arbitrary: ys)
  case Nil
  then show ?case by simp
next
  case (Cons x xs)
  then show ?case
    by (cases "f x"; cases "mapE f xs") auto
qed

lemma collect_urls_mapE:
  "collect_urls records acc = bindE (mapE paired_pull_url records) (\<lambda>us. Inr (acc @ us))"
proof (induction records arbitrary: acc)
  case Nil show ?case by simp
next
  case (Cons r rs)
  show ?case
  proof (cases "paired_pull_url r")
    case (Inl e)
    then show ?thesis
      by (cases "getitem_str r ''url''"; cases "getitem_str r ''pull_request''")
         (auto simp: paired_pull_url_def)
  next
    case (Inr u)
    then have "collect_urls (r # rs) acc = collect_urls rs (acc @ [u])"
      by (cases "getitem_str r ''url''"; cases "getitem_str r ''pull_request''")
         (auto simp: paired_pull_url_def)
    with Inr Cons[of "acc @ [u]"] show ?thesis
      by (cases "mapE paired_pull_url rs") simp_all
  qed
qed

lemma items_step:
  "(case bindE (Inr v) py_len of
      Inl e \<Rightarrow> Fail e
    | Inr n \<Rightarrow>
        if n = 0 then Stop
        else (case bindE (bindE (Inr v) py_iter) (\<lambda>records. collect_urls records acc) of
                Inl e \<Rightarrow> Fail e
              | Inr urls \<Rightarrow> Continue urls))
   = (case items_urls v of
        Inl e \<Rightarrow> Fail e
      | Inr us \<Rightarrow> if us = [] then Stop else Continue (acc @ us))"
proof (cases v)
  case (JArr records)
  show ?thesis
  proof (cases "mapE paired_pull_url records")
    case (Inl e)
    then have "records \<noteq> []" by auto
    with Inl JArr show ?thesis by (simp add: collect_urls_mapE)
  next
    case (Inr us)
    from mapE_length[OF Inr] have "us = [] \<longleftrightarrow> records = []" by auto
    with Inr JArr show ?thesis by (simp add: collect_urls_mapE)
  qed
next
  case (JObj members)
  then show ?thesis by (cases members) auto
next
  case (JStr s)
  then show ?thesis by (cases s) auto
qed simp_all

text \<open>One pass of the loop body does what the response contributes.\<close>

lemma page_step_urls:
  "page_step data acc =
     (case page_urls_of data of
        Inl e \<Rightarrow> Fail e
      | Inr us \<Rightarrow> if us = [] then Stop else Continue (acc @ us))"
proof (cases data)
  case (JObj kvs)
  show ?thesis
  proof (cases "map_of kvs ''items''")
    case None
    then have "''items'' \<notin> set (map fst kvs)" by (simp add: map_of_eq_None_iff)
    with None JObj show ?thesis by (simp add: page_step_def)
  next
    case (Some v)
    then have "''items'' \<in> set (map fst kvs)"
      by (metis map_of_eq_None_iff option.distinct(1) set_map)
    then have c: "contains_str ''items'' data = Inr True"
      using JObj by simp
    have g: "getitem_str data ''items'' = Inr v"
      using JObj Some by simp
    show ?thesis
      unfolding page_step_def c g
      using items_step[of v acc] JObj Some by simp
  qed
qed (simp_all add: page_step_def)

lemma loop_step:
  "pull_requests_loop g p acc =
     (case page_urls (g p) of
        Inl e \<Rightarrow> Some (Inl e)
      | Inr us \<Rightarrow> if us = [] then Some (Inr acc) else pull_requests_loop g (p + 1) (acc @ us))"
  by (subst pull_requests_loop.simps)
     (simp add: page_urls_def response_json_def page_step_urls split: option.splits sum.splits)

lemma loop_pages:
  assumes "\<forall>k<n. page_urls (g (p + int k)) = Inr (us k) \<and> us k \<noteq> []"
  shows "pull_requests_loop g p acc
           = pull_requests_loop g (p + int n) (acc @ concat (map us [0..<n]))"
  using assms
proof (induction n arbitrary: acc)
  case 0
  show ?case by simp
next
  case (Suc n)
  from Suc.prems have pre: "\<forall>k<n. page_urls (g (p + int k)) = Inr (us k) \<and> us k \<noteq> []"
    and last: "page_urls (g (p + int n)) = Inr (us n)" "us n \<noteq> []"
    by simp_all
  have "p + int n + 1 = p + int (Suc n)" by simp
  then have "pull_requests_loop g (p + int n) (acc @ concat (map us [0..<n]))
          = pull_requests_loop g (p + int (Suc n)) ((acc @ concat (map us [0..<n])) @ us n)"
    using last by (subst loop_step) (simp add: ac_simps)
  with Suc.IH[OF pre, of acc] show ?case by simp
qed

lemma loop_returns:
  assumes "pull_requests_loop g p acc = Some y"
  shows "\<exists>k. \<not> has_results (g (p + int k))"
  using assms
proof (induction rule: pull_requests_loop.raw_induct[rotated 1, consumes 1, case_names step])
  case (step loop g p acc y)
  show ?case
  proof (cases "has_results (g p)")
    case False
    then have "\<not> has_results (g (p + int 0))" by simp
    then show ?thesis by (rule exI)
  next
    case True
    then obtain us where us: "page_urls (g p) = Inr us" "us \<noteq> []"
      by (cases "page_urls (g p)") (simp_all add: has_results_def)
    from us(1) obtain d where b: "body (g p) = Some d" and d: "page_urls_of d = Inr us"
      by (cases "body (g p)") (simp_all add: page_urls_def)
    from b have rj: "response_json (g p) = Inr d" by (simp add: response_json_def)
    from d us(2) have st: "page_step d acc = Continue (acc @ us)" by (simp add: page_step_urls)
    from step(2) have "loop g (p + 1) (acc @ us) = Some y"
      by (simp add: rj st)
    from step(1)[OF this] obtain k where k: "\<not> has_results (g (p + 1 + int k))"
      by blast
    have "p + 1 + int k = p + int (Suc k)" by simp
    with k have "\<not> has_results (g (p + int (Suc k)))" by simp
    then show ?thesis by (rule exI)
  qed
qed


lemma loop_forever:
  assumes "\<forall>k. has_results (g (p + int k))"
  shows "pull_requests_loop g p acc = None"
proof (cases "pull_requests_loop g p acc")
  case None
  then show ?thesis .
next
  case (Some y)
  from loop_returns[OF Some] assms show ?thesis by blast
qed

text \<open>
  Claim C8, as the code has it. The search asks for page 1, then page 2, and so on, and
  never reads the status of a response. A response with results (an \<^verbatim>\<open>items\<close> that is
  a non-empty list of issue records, each with its \<^verbatim>\<open>url\<close> and the \<^verbatim>\<open>url\<close> under
  its \<^verbatim>\<open>pull_request\<close>) is followed by the request of the next page. The first response
  without results decides the outcome. When it has no \<^verbatim>\<open>items\<close> or an \<^verbatim>\<open>items\<close> of
  length 0, the search returns the paired pull-request URLs (not the issue URLs) of the
  records of the pages before it, in the order met. Otherwise it is malformed (a body that
  is not JSON or not a container, an \<^verbatim>\<open>items\<close> without a length, a record that lacks
  one of the three members, and the like), and the search raises its exception and returns
  no URL. When every page has results, the search does not return.
\<close>

theorem get_pull_requests_pages:
  "((\<forall>k\<in>{1..n}. page_urls (get url headers (int k)) = Inr (us k) \<and> us k \<noteq> [])
      \<and> page_urls (get url headers (int n + 1)) = Inr []
    \<longrightarrow> get_pull_requests get url headers = Some (Inr (concat (map us [1..<Suc n]))))
   \<and> ((\<forall>k\<in>{1..n}. has_results (get url headers (int k)))
      \<and> page_urls (get url headers (int n + 1)) = Inl e
    \<longrightarrow> get_pull_requests get url headers = Some (Inl e))
   \<and> ((\<forall>k. 1 \<le> k \<longrightarrow> has_results (get url headers (int k)))
    \<longrightarrow> get_pull_requests get url headers = None)"
proof (intro conjI impI)
  let ?g = "get url headers"
  have idx: "1 + int k = int (Suc k)" for k by simp
  have last: "1 + int n = int n + 1" by simp
  {
    assume a: "(\<forall>k\<in>{1..n}. page_urls (?g (int k)) = Inr (us k) \<and> us k \<noteq> [])
                 \<and> page_urls (?g (int n + 1)) = Inr []"
    have pre: "\<forall>k<n. page_urls (?g (1 + int k)) = Inr ((us \<circ> Suc) k) \<and> (us \<circ> Suc) k \<noteq> []"
    proof (intro allI impI)
      fix k assume "k < n"
      then have "Suc k \<in> {1..n}" by simp
      with a have "page_urls (?g (int (Suc k))) = Inr (us (Suc k)) \<and> us (Suc k) \<noteq> []"
        by blast
      then show "page_urls (?g (1 + int k)) = Inr ((us \<circ> Suc) k) \<and> (us \<circ> Suc) k \<noteq> []"
        unfolding idx by simp
    qed
    have "[1..<Suc n] = map Suc [0..<n]"
      by (simp add: map_Suc_upt del: upt_Suc)
    then have pages: "map us [1..<Suc n] = map (us \<circ> Suc) [0..<n]"
      by (simp only: map_map)
    from a have stop: "page_urls (?g (1 + int n)) = Inr []"
      unfolding last by simp
    have "pull_requests_loop ?g 1 [] = pull_requests_loop ?g (1 + int n) ([] @ concat (map (us \<circ> Suc) [0..<n]))"
      by (rule loop_pages[OF pre])
    also have "\<dots> = Some (Inr (concat (map (us \<circ> Suc) [0..<n])))"
      using stop by (subst loop_step) simp
    finally show "get_pull_requests get url headers = Some (Inr (concat (map us [1..<Suc n])))"
      unfolding get_pull_requests_def pages .
  }
  {
    assume a: "(\<forall>k\<in>{1..n}. has_results (?g (int k))) \<and> page_urls (?g (int n + 1)) = Inl e"
    define vs where "vs k = (case page_urls (?g (1 + int k)) of Inr x \<Rightarrow> x | Inl e \<Rightarrow> [])" for k
    have pre: "\<forall>k<n. page_urls (?g (1 + int k)) = Inr (vs k) \<and> vs k \<noteq> []"
    proof (intro allI impI)
      fix k assume "k < n"
      then have "Suc k \<in> {1..n}" by simp
      with a have "has_results (?g (int (Suc k)))" by blast
      then have "has_results (?g (1 + int k))" unfolding idx .
      then show "page_urls (?g (1 + int k)) = Inr (vs k) \<and> vs k \<noteq> []"
        by (cases "page_urls (?g (1 + int k))") (simp_all add: has_results_def vs_def)
    qed
    from a have raise: "page_urls (?g (1 + int n)) = Inl e"
      unfolding last by simp
    have "pull_requests_loop ?g 1 [] = pull_requests_loop ?g (1 + int n) ([] @ concat (map vs [0..<n]))"
      by (rule loop_pages[OF pre])
    also have "\<dots> = Some (Inl e)"
      using raise by (subst loop_step) simp
    finally show "get_pull_requests get url headers = Some (Inl e)"
      unfolding get_pull_requests_def .
  }
  {
    assume a: "\<forall>k. 1 \<le> k \<longrightarrow> has_results (?g (int k))"
    have "\<forall>k. has_results (?g (1 + int k))"
    proof
      fix k
      have "1 \<le> Suc k" by simp
      with a have "has_results (?g (int (Suc k)))" by blast
      then show "has_results (?g (1 + int k))" unfolding idx .
    qed
    then show "get_pull_requests get url headers = None"
      unfolding get_pull_requests_def by (rule loop_forever)
  }
qed

lemma one_record_page:
  "page_urls \<lparr>status = s,
              body = Some (JObj [(''items'', JArr [issue_record issue_url pr_url])])\<rparr>
     = Inr [JStr pr_url]"
  by (simp add: page_urls_def issue_record_def paired_pull_url_def)

text \<open>Claim C8, witness: two pages of results and an empty third page; the empty list
  as the first response; a second response with \<^verbatim>\<open>items\<close> \<^verbatim>\<open>null\<close>, with a body that
  is not JSON, with a record that has no \<^verbatim>\<open>pull_request\<close>; a search that never runs out
  of results.\<close>

theorem get_pull_requests_pages_witness:
  "get_pull_requests two_page_search ''api/search'' []
     = Some (Inr [JStr ''api/pulls/1'', JStr ''api/pulls/2''])
   \<and> get_pull_requests empty_list_search ''api/search'' [] = Some (Inr [])
   \<and> get_pull_requests null_items_search ''api/search'' [] = Some (Inl TypeError)
   \<and> get_pull_requests gateway_error_search ''api/search'' [] = Some (Inl JSONDecodeError)
   \<and> get_pull_requests plain_issue_search ''api/search'' []
       = Some (Inl (KeyError (JStr ''pull_request'')))
   \<and> get_pull_requests endless_search ''api/search'' [] = None"
proof (intro conjI)
  let ?us = "\<lambda>k::nat. if k = 1 then [JStr ''api/pulls/1''] else [JStr ''api/pulls/2'']"
  have two: "[1..<Suc 2] = [1, 2]" by (simp add: upt_conv_Cons)
  have "(\<forall>k\<in>{1..2::nat}. page_urls (two_page_search ''api/search'' [] (int k)) = Inr (?us k) \<and> ?us k \<noteq> [])
        \<and> page_urls (two_page_search ''api/search'' [] (int 2 + 1)) = Inr []"
  proof (intro conjI ballI)
    fix k :: nat assume "k \<in> {1..2}"
    then have "k = 1 \<or> k = 2" by auto
    then show "page_urls (two_page_search ''api/search'' [] (int k)) = Inr (?us k)"
      by (auto simp: two_page_search_def one_record_page)
    show "?us k \<noteq> []" by simp
  next
    show "page_urls (two_page_search ''api/search'' [] (int 2 + 1)) = Inr []"
      by (simp add: two_page_search_def page_urls_def)
  qed
  with get_pull_requests_pages[of 2 two_page_search "''api/search''" "[]" ?us, THEN conjunct1]
  show "get_pull_requests two_page_search ''api/search'' []
          = Some (Inr [JStr ''api/pulls/1'', JStr ''api/pulls/2''])"
    unfolding two by simp
next
  have "page_urls (empty_list_search ''api/search'' [] (int 0 + 1)) = Inr []"
    by (simp add: empty_list_search_def page_urls_def)
  with get_pull_requests_pages[of 0 empty_list_search "''api/search''" "[]" "\<lambda>k. []", THEN conjunct1]
  show "get_pull_requests empty_list_search ''api/search'' [] = Some (Inr [])"
    by simp
next
  have "(\<forall>k\<in>{1..1::nat}. has_results (null_items_search ''api/search'' [] (int k)))
        \<and> page_urls (null_items_search ''api/search'' [] (int 1 + 1)) = Inl TypeError"
    by (simp add: null_items_search_def has_results_def one_record_page) (simp add: page_urls_def)
  with get_pull_requests_pages[of 1 null_items_search "''api/search''" "[]" _ TypeError,
         THEN conjunct2, THEN conjunct1]
  show "get_pull_requests null_items_search ''api/search'' [] = Some (Inl TypeError)"
    by blast
next
  have "(\<forall>k\<in>{1..1::nat}. has_results (gateway_error_search ''api/search'' [] (int k)))
        \<and> page_urls (gateway_error_search ''api/search'' [] (int 1 + 1)) = Inl JSONDecodeError"
    by (simp add: gateway_error_search_def has_results_def one_record_page) (simp add: page_urls_def)
  with get_pull_requests_pages[of 1 gateway_error_search "''api/search''" "[]" _ JSONDecodeError,
         THEN conjunct2, THEN conjunct1]
  show "get_pull_requests gateway_error_search ''api/search'' [] = Some (Inl JSONDecodeError)"
    by blast
next
  have "(\<forall>k\<in>{1..1::nat}. has_results (plain_issue_search ''api/search'' [] (int k)))
        \<and> page_urls (plain_issue_search ''api/search'' [] (int 1 + 1))
            = Inl (KeyError (JStr ''pull_request''))"
    by (simp add: plain_issue_search_def has_results_def one_record_page)
       (simp add: page_urls_def paired_pull_url_def)
  with get_pull_requests_pages[of 1 plain_issue_search "''api/search''" "[]" _
         "KeyError (JStr ''pull_request'')", THEN conjunct2, THEN conjunct1]
  show "get_pull_requests plain_issue_search ''api/search'' []
          = Some (Inl (KeyError (JStr ''pull_request'')))"
    by blast
next
  have "\<forall>k. 1 \<le> k \<longrightarrow> has_results (endless_search ''api/search'' [] (int k))"
    by (simp add: endless_search_def has_results_def one_record_page)
  with get_pull_requests_pages[of _ endless_search "''api/search''" "[]",
         THEN conjunct2, THEN conjunct2]
  show "get_pull_requests endless_search ''api/search'' [] = None"
    by blast
qed

text \<open>
  Claim C8 as the specification states it fails: the second response is a refusal with
  status 403, and the search returns the URL of the first page as its result instead of
  raising.
\<close>

theorem get_pull_requests_partial_on_refusal:
  "status (rate_limited_search ''api/search'' [] 2) = 403
   \<and> get_pull_requests rate_limited_search ''api/search'' [] = Some (Inr [JStr ''api/pulls/1''])"
  by (simp add: get_pull_requests_def rate_limited_search_def issue_record_def page_step_def
        response_json_def
        pull_requests_loop.simps[of _ 1] pull_requests_loop.simps[of _ 2])

subsection \<open>One completion call\<close>

lemma posted_trace [simp]: "posted req (w\<lparr>trace := t\<rparr>) = posted req w"
  by (simp add: posted_def)

lemma on_response_decoded:
  "body r = Some c \<Longrightarrow>
     on_response name r =
       (if status r = 200 then Completed \<lparr>group_name = name, completion = c\<rparr>
        else if status r = 500 then Overloaded
        else Raised (RuntimeError (status r)))"
  by (simp add: on_response_def response_json_def)

lemma on_response_undecodable: "body r = None \<Longrightarrow> on_response name r = Raised JSONDecodeError"
  by (simp add: on_response_def response_json_def)

lemma on_response_overloaded:
  "status r = 500 \<and> body r \<noteq> None \<Longrightarrow> on_response name r = Overloaded"
  by (auto simp: on_response_decoded)

lemma completion_loop_overloaded:
  assumes "\<forall>r\<in>set pre. status r = 500 \<and> body r \<noteq> None"
  shows "completion_loop req name (pre @ rs) w =
           completion_loop req name rs
             (w\<lparr>trace := trace w @ concat (replicate (length pre) [posted req w, Sleep 1])\<rparr>)"
  using assms
proof (induction pre arbitrary: w)
  case Nil
  show ?case by simp
next
  case (Cons r pre)
  then have r: "on_response name r = Overloaded" by (simp add: on_response_overloaded)
  from Cons.prems have pre: "\<forall>r\<in>set pre. status r = 500 \<and> body r \<noteq> None" by simp
  show ?case
    by (simp add: r Cons.IH[OF pre] post_def sleep_def)
qed

lemma on_response_raised:
  assumes "on_response name r = Raised e"
  shows "(body r = None \<and> e = JSONDecodeError)
       \<or> (body r \<noteq> None \<and> status r \<noteq> 200 \<and> status r \<noteq> 500 \<and> e = RuntimeError (status r))"
proof (cases "body r")
  case None
  with assms show ?thesis by (simp add: on_response_undecodable)
next
  case (Some c)
  with assms show ?thesis by (auto simp: on_response_decoded split: if_splits)
qed

lemma completion_loop_raises:
  assumes "fst (completion_loop req name rs w) = Some (Inl e)"
  shows "\<exists>r\<in>set rs. (body r = None \<and> e = JSONDecodeError)
           \<or> (body r \<noteq> None \<and> status r \<noteq> 200 \<and> status r \<noteq> 500 \<and> e = RuntimeError (status r))"
  using assms
proof (induction rs arbitrary: w)
  case Nil
  then show ?case by simp
next
  case (Cons r rs)
  show ?case
  proof (cases "on_response name r")
    case (Completed c)
    with Cons.prems show ?thesis by simp
  next
    case Overloaded
    with Cons.prems have "fst (completion_loop req name rs (sleep 1 (post req w))) = Some (Inl e)"
      by simp
    from Cons.IH[OF this] show ?thesis by auto
  next
    case (Raised e')
    with Cons.prems have "e' = e" by simp
    with on_response_raised[OF Raised] show ?thesis by auto
  qed
qed

text \<open>
  The store tells the copy from the original: an assignment into an object changes that
  object, so assigning the messages into the template itself would have changed it.
\<close>

lemma store_setitem_hits:
  "a < length (objects w)
     \<Longrightarrow> objects (store_setitem a k v w) ! a = dict_setitem (objects w ! a) k v"
  by (simp add: store_setitem_def)

lemma store_setitem_misses:
  "b \<noteq> a \<Longrightarrow> objects (store_setitem a k v w) ! b = objects w ! b"
  by (simp add: store_setitem_def)

lemma prepare_request_world:
  "prepare_request p messages w =
     (\<lparr>req_url = completions_url (config p),
       req_headers = [(''Authorization'', ''Bearer '' @ access_token p),
                      (''Content-Type'', ''application/json'')],
       req_data = length (objects w)\<rparr>,
      w\<lparr>objects := objects w @
           [dict_setitem (objects w ! data_template (config p)) ''messages''
              (JArr (map message_json messages))]\<rparr>)"
  by (simp add: prepare_request_def copy_template_def store_setitem_def Let_def)

lemma dict_setitem_map_of: "map_of (dict_setitem d k v) = (map_of d)(k \<mapsto> v)"
  by (induction d) auto



lemma completion_loop_effects:
  "objects (snd (completion_loop req name rs w)) = objects w
   \<and> (\<exists>k\<le>length rs. trace (snd (completion_loop req name rs w))
          = trace w @ concat (replicate k [posted req w, Sleep 1]) @ [posted req w])"
proof (induction rs arbitrary: w)
  case Nil
  show ?case by (simp add: post_def)
next
  case (Cons r rs)
  show ?case
  proof (cases "on_response name r")
    case (Completed c)
    then show ?thesis by (simp add: post_def)
  next
    case (Raised e)
    then show ?thesis by (simp add: post_def)
  next
    case Overloaded
    let ?w = "sleep 1 (post req w)"
    have p: "posted req ?w = posted req w" by (simp add: sleep_def post_def)
    from Cons.IH[of ?w] obtain k where k: "k \<le> length rs"
      "trace (snd (completion_loop req name rs ?w))
         = trace ?w @ concat (replicate k [posted req w, Sleep 1]) @ [posted req w]"
      and o: "objects (snd (completion_loop req name rs ?w)) = objects ?w"
      unfolding p by blast
    have "trace (snd (completion_loop req name (r # rs) w))
            = trace w @ concat (replicate (Suc k) [posted req w, Sleep 1]) @ [posted req w]"
      using Overloaded k(2) by (simp add: sleep_def post_def)
    moreover have "objects (snd (completion_loop req name (r # rs) w)) = objects w"
      using Overloaded o by (simp add: sleep_def post_def)
    moreover have "Suc k \<le> length (r # rs)" using k(1) by simp
    ultimately show ?thesis by blast
  qed
qed

lemma example_prepare:
  "prepare_request example_provider example_messages example_world =
     (\<lparr>req_url = ''https://openai.mock/completions'',
       req_headers = [(''Authorization'', ''Bearer mock-token''), (''Content-Type'', ''application/json'')],
       req_data = 1\<rparr>,
      \<lparr>objects = [example_template,
                  [(''deployment_id'', JStr ''gpt-mock''),
                   (''messages'', JArr [JObj [(''role'', JStr ''user''), (''content'', JStr ''mock_comment'')]]),
                   (''max_tokens'', JInt 4000), (''temperature'', JFloat (7 / 10)),
                   (''stop'', JNull)]],
       trace = []\<rparr>)"
  by (simp add: prepare_request_world example_provider_def example_messages_def
        example_world_def example_template_def message_json_def)

text \<open>
  Claim C3, as the code has it. The call decodes the body of each response before it reads
  the status. While the responses are 500 with a JSON body the call has not returned, and
  after each of them it sleeps one unit and posts the same request again. The first
  response that is not such a one ends the call: a 200 with a JSON body returns the
  completion result with the group's name and the decoded body, any other status with a
  JSON body raises the unexpected-status error with that status, and a body that is not
  JSON raises the decoding error whatever the status, 200 and 500 included. The call
  raises in no other case.
\<close>

theorem get_completion_by_status:
  assumes "\<forall>r\<in>set pre. status r = 500 \<and> body r \<noteq> None"
  shows "(status r = 200 \<and> body r = Some c \<longrightarrow>
            fst (get_completion p name messages (pre @ r # rest) w)
              = Some (Inr \<lparr>group_name = name, completion = c\<rparr>))
       \<and> (status r \<noteq> 200 \<and> status r \<noteq> 500 \<and> body r \<noteq> None \<longrightarrow>
            fst (get_completion p name messages (pre @ r # rest) w)
              = Some (Inl (RuntimeError (status r))))
       \<and> (body r = None \<longrightarrow>
            fst (get_completion p name messages (pre @ r # rest) w)
              = Some (Inl JSONDecodeError))
       \<and> fst (get_completion p name messages pre w) = None
       \<and> trace (snd (get_completion p name messages pre w))
            = trace w
              @ concat (replicate (length pre)
                  [posted (fst (prepare_request p messages w)) (snd (prepare_request p messages w)),
                   Sleep 1])
              @ [posted (fst (prepare_request p messages w)) (snd (prepare_request p messages w))]
       \<and> (\<forall>rs e. fst (get_completion p name messages rs w) = Some (Inl e) \<longrightarrow>
            (\<exists>r\<in>set rs.
               (body r = None \<and> e = JSONDecodeError)
             \<or> (body r \<noteq> None \<and> status r \<noteq> 200 \<and> status r \<noteq> 500
                 \<and> e = RuntimeError (status r))))"
proof -
  obtain req w1 where pr: "prepare_request p messages w = (req, w1)"
    by (cases "prepare_request p messages w")
  have gc: "get_completion p name messages rs w = completion_loop req name rs w1" for rs
    by (simp add: get_completion_def pr)
  have tr: "trace w1 = trace w"
    using pr by (auto simp: prepare_request_world)
  have over: "completion_loop req name (pre @ rs) w1 =
                completion_loop req name rs
                  (w1\<lparr>trace := trace w1 @ concat (replicate (length pre) [posted req w1, Sleep 1])\<rparr>)" for rs
    by (rule completion_loop_overloaded[OF assms])
  have 1: "status r = 200 \<and> body r = Some c \<longrightarrow>
            fst (get_completion p name messages (pre @ r # rest) w)
              = Some (Inr \<lparr>group_name = name, completion = c\<rparr>)"
    by (simp add: gc over on_response_decoded)
  have 2: "status r \<noteq> 200 \<and> status r \<noteq> 500 \<and> body r \<noteq> None \<longrightarrow>
            fst (get_completion p name messages (pre @ r # rest) w) = Some (Inl (RuntimeError (status r)))"
    by (auto simp: gc over on_response_decoded)
  have 3: "body r = None \<longrightarrow>
            fst (get_completion p name messages (pre @ r # rest) w) = Some (Inl JSONDecodeError)"
    by (simp add: gc over on_response_undecodable)
  have "completion_loop req name pre w1 = completion_loop req name (pre @ []) w1" by simp
  also have "\<dots> = completion_loop req name []
                  (w1\<lparr>trace := trace w1 @ concat (replicate (length pre) [posted req w1, Sleep 1])\<rparr>)"
    by (rule over)
  finally have wait: "completion_loop req name pre w1 =
      (None, post req (w1\<lparr>trace := trace w1 @ concat (replicate (length pre) [posted req w1, Sleep 1])\<rparr>))"
    by simp
  have 4: "fst (get_completion p name messages pre w) = None"
    by (simp add: gc wait)
  have 5: "trace (snd (get_completion p name messages pre w))
            = trace w @ concat (replicate (length pre) [posted req w1, Sleep 1]) @ [posted req w1]"
    by (simp add: gc wait post_def tr)
  have 6: "\<forall>rs e. fst (get_completion p name messages rs w) = Some (Inl e) \<longrightarrow>
            (\<exists>r\<in>set rs.
               (body r = None \<and> e = JSONDecodeError)
             \<or> (body r \<noteq> None \<and> status r \<noteq> 200 \<and> status r \<noteq> 500
                 \<and> e = RuntimeError (status r)))"
    unfolding gc by (intro allI impI) (rule completion_loop_raises)
  from 1 2 3 4 5 6 show ?thesis by (simp add: pr)
qed

text \<open>Claim C3, witness: one overloaded response, followed by a success, by a 418, or by
  a response whose body is not JSON.\<close>

theorem get_completion_by_status_witness:
  "fst (get_completion example_provider ''g'' example_messages
          [overloaded_response, ok_response ''done''] example_world)
     = Some (Inr \<lparr>group_name = ''g'', completion = completion_body ''done''\<rparr>)
   \<and> fst (get_completion example_provider ''g'' example_messages
          [overloaded_response, teapot_response] example_world)
     = Some (Inl (RuntimeError 418))
   \<and> fst (get_completion example_provider ''g'' example_messages
          [overloaded_response, html_response 503] example_world)
     = Some (Inl JSONDecodeError)
   \<and> fst (get_completion example_provider ''g'' example_messages
          [overloaded_response] example_world) = None
   \<and> trace (snd (get_completion example_provider ''g'' example_messages
          [overloaded_response] example_world))
     = [example_request, Sleep 1, example_request]"
proof -
  have pre: "\<forall>r\<in>set [overloaded_response]. status r = 500 \<and> body r \<noteq> None"
    by (simp add: overloaded_response_def)
  note a = get_completion_by_status[OF pre, of "ok_response ''done''" "completion_body ''done''"
             example_provider "''g''" example_messages "[]" example_world]
  note b = get_completion_by_status[OF pre, of teapot_response _ example_provider "''g''"
             example_messages "[]" example_world]
  note c = get_completion_by_status[OF pre, of "html_response 503" _ example_provider "''g''"
             example_messages "[]" example_world]
  have "status (ok_response ''done'') = 200"
       "body (ok_response ''done'') = Some (completion_body ''done'')"
       "status teapot_response = 418" "body teapot_response \<noteq> None"
       "body (html_response 503) = None" "trace example_world = []"
    by (simp_all add: ok_response_def teapot_response_def html_response_def example_world_def)
  with a b c show ?thesis
    by (simp add: example_prepare posted_def example_request_def)
qed

text \<open>
  Claim C3 as the specification states it fails: a response with status 200 whose body is
  not JSON does not give a completion result; the call raises, and the status was not
  another one than 200 and 500.
\<close>

theorem get_completion_raises_on_success_status:
  "status (html_response 200) = 200
   \<and> fst (get_completion example_provider ''g'' example_messages [html_response 200]
          example_world)
     = Some (Inl JSONDecodeError)"
  by (simp add: get_completion_def example_prepare html_response_def on_response_undecodable)

text \<open>
  Claim C4, as the code has it. When the endpoint answers 500 with a JSON body any finite
  number of times and then 200 with a JSON body, the call returns one completion result,
  named after the group, whose completion is the decoded body of that last response: the
  result the call gives when that response is the answer to its first request.
\<close>

theorem get_completion_after_overload:
  assumes "\<forall>r\<in>set pre. status r = 500 \<and> body r \<noteq> None"
      and "status r = 200" and "body r = Some c"
  shows "fst (get_completion p name messages (pre @ r # rest) w)
           = Some (Inr \<lparr>group_name = name, completion = c\<rparr>)
       \<and> fst (get_completion p name messages (pre @ r # rest) w)
           = fst (get_completion p name messages [r] w)"
proof -
  obtain req w1 where pr: "prepare_request p messages w = (req, w1)"
    by (cases "prepare_request p messages w")
  have "fst (get_completion p name messages (pre @ r # rest) w)
           = Some (Inr \<lparr>group_name = name, completion = c\<rparr>)"
    using assms(2)
    by (simp add: get_completion_def pr completion_loop_overloaded[OF assms(1)]
          on_response_decoded[OF assms(3)])
  moreover have "fst (get_completion p name messages [r] w)
           = Some (Inr \<lparr>group_name = name, completion = c\<rparr>)"
    using assms(2) by (simp add: get_completion_def pr on_response_decoded[OF assms(3)])
  ultimately show ?thesis by simp
qed

text \<open>Claim C4, witness: status 500 twice, then 200.\<close>

theorem get_completion_after_overload_witness:
  "fst (get_completion example_provider ''g'' example_messages
          [overloaded_response, overloaded_response, ok_response ''done''] example_world)
     = Some (Inr \<lparr>group_name = ''g'', completion = completion_body ''done''\<rparr>)
   \<and> fst (get_completion example_provider ''g'' example_messages
          [ok_response ''done''] example_world)
     = Some (Inr \<lparr>group_name = ''g'', completion = completion_body ''done''\<rparr>)"
proof -
  have pre: "\<forall>r\<in>set [overloaded_response, overloaded_response]. status r = 500 \<and> body r \<noteq> None"
    by (simp add: overloaded_response_def)
  have ok: "status (ok_response ''done'') = 200"
    by (simp add: ok_response_def)
  have b: "body (ok_response ''done'') = Some (completion_body ''done'')"
    by (simp add: ok_response_def)
  from get_completion_after_overload[OF pre ok b, of example_provider "''g''" example_messages
         "[]" example_world]
  show ?thesis by (metis append_Cons append_Nil)
qed

text \<open>
  Claim C4 as the specification states it fails: the endpoint answers 500 once, with a
  body that is not JSON, and then 200; the call raises on the first response and returns
  no completion result.
\<close>

theorem get_completion_raises_on_overloaded_status:
  "status (html_response 500) = 500 \<and> status (ok_response ''done'') = 200
   \<and> fst (get_completion example_provider ''g'' example_messages
          [html_response 500, ok_response ''done''] example_world)
     = Some (Inl JSONDecodeError)
   \<and> fst (get_completion example_provider ''g'' example_messages
          [ok_response ''done''] example_world)
     = Some (Inr \<lparr>group_name = ''g'', completion = completion_body ''done''\<rparr>)"
  by (simp add: get_completion_def example_prepare html_response_def ok_response_def
        on_response_undecodable on_response_decoded)

text \<open>
  Claim C9. Every request a call posts goes to the completions URL with the bearer header
  and carries as its body the data template with \<^verbatim>\<open>messages\<close> replaced by the submitted
  messages. The call works on a copy: every object that existed before the call, the
  template among them, holds afterwards what it held before, and the call leaves nothing
  else behind than its requests and its sleeps.
\<close>

theorem get_completion_body_and_frame:
  assumes "data_template (config p) < length (objects w)"
  shows "take (length (objects w)) (objects (snd (get_completion p name messages responses w)))
           = objects w
       \<and> objects (snd (get_completion p name messages responses w)) ! data_template (config p)
           = objects w ! data_template (config p)
       \<and> (\<exists>k\<le>length responses.
            trace (snd (get_completion p name messages responses w))
              = trace w
                @ concat (replicate k
                    [Post (completions_url (config p))
                       [(''Authorization'', ''Bearer '' @ access_token p),
                        (''Content-Type'', ''application/json'')]
                       (JObj (request_body (objects w ! data_template (config p)) messages)),
                     Sleep 1])
                @ [Post (completions_url (config p))
                     [(''Authorization'', ''Bearer '' @ access_token p),
                      (''Content-Type'', ''application/json'')]
                     (JObj (request_body (objects w ! data_template (config p)) messages))])
       \<and> map_of (request_body (objects w ! data_template (config p)) messages)
           = (map_of (objects w ! data_template (config p)))
               (''messages'' \<mapsto> JArr (map message_json messages))"
proof -
  let ?t = "data_template (config p)"
  let ?b = "request_body (objects w ! ?t) messages"
  let ?req = "\<lparr>req_url = completions_url (config p),
       req_headers = [(''Authorization'', ''Bearer '' @ access_token p),
                      (''Content-Type'', ''application/json'')],
       req_data = length (objects w)\<rparr>"
  let ?w1 = "w\<lparr>objects := objects w @ [?b]\<rparr>"
  have gc: "get_completion p name messages responses w = completion_loop ?req name responses ?w1"
    by (simp add: get_completion_def prepare_request_world request_body_def)
  have po: "posted ?req ?w1 = Post (completions_url (config p))
                       [(''Authorization'', ''Bearer '' @ access_token p),
                        (''Content-Type'', ''application/json'')] (JObj ?b)"
    by (simp add: posted_def)
  from completion_loop_effects[of ?req name responses ?w1]
  have ob: "objects (snd (get_completion p name messages responses w)) = objects w @ [?b]"
    and tr: "\<exists>k\<le>length responses. trace (snd (get_completion p name messages responses w))
               = trace w @ concat (replicate k [posted ?req ?w1, Sleep 1]) @ [posted ?req ?w1]"
    unfolding gc by simp_all
  have 1: "take (length (objects w)) (objects (snd (get_completion p name messages responses w))) = objects w"
    by (simp add: ob)
  have 2: "objects (snd (get_completion p name messages responses w)) ! ?t = objects w ! ?t"
    using assms by (simp add: ob nth_append)
  have 4: "map_of ?b = (map_of (objects w ! ?t))(''messages'' \<mapsto> JArr (map message_json messages))"
    by (simp add: request_body_def dict_setitem_map_of)
  from 1 2 tr 4 show ?thesis unfolding po by blast
qed

text \<open>Claim C9, witness: the template of the example is intact after a call that retried
  once, and the body posted holds the submitted message.\<close>

theorem get_completion_body_and_frame_witness:
  "objects (snd (get_completion example_provider ''g'' example_messages
          [overloaded_response, ok_response ''done''] example_world)) ! 0 = example_template
   \<and> map_of (request_body example_template example_messages) ''messages''
       = Some (JArr [JObj [(''role'', JStr ''user''), (''content'', JStr ''mock_comment'')]])
   \<and> map_of example_template ''messages'' = Some (JArr [])"
proof -
  have "data_template (config example_provider) < length (objects example_world)"
    by (simp add: example_provider_def example_world_def)
  from get_completion_body_and_frame[OF this, of "''g''" example_messages
         "[overloaded_response, ok_response ''done'']"]
  show ?thesis
    by (simp add: example_provider_def example_world_def example_messages_def message_json_def
          example_template_def)
qed

subsection \<open>The fan-out of completion calls\<close>

lemma start_tasks_names: "map task_name (fst (start_tasks p mgs w)) = map fst mgs"
proof (induction mgs arbitrary: w)
  case Nil show ?case by simp
next
  case (Cons g gs)
  obtain t w1 where t: "start_task p g w = (t, w1)" by (cases "start_task p g w")
  obtain ts w2 where ts: "start_tasks p gs w1 = (ts, w2)" by (cases "start_tasks p gs w1")
  have "task_name t = fst g"
    using t by (auto simp: start_task_def split: prod.splits)
  moreover have "map task_name ts = map fst gs"
    using Cons[of w1] ts by simp
  ultimately show ?case by (simp add: t ts)
qed

lemma gathered_names:
  "gathered ts = Some results \<Longrightarrow> map group_name results = map task_name ts"
proof (induction ts arbitrary: results)
  case Nil then show ?case by simp
next
  case (Cons t ts)
  then show ?case
    by (cases t) (auto split: option.splits)
qed

lemma on_response_name: "on_response name r = Completed result \<Longrightarrow> group_name result = name"
  by (auto simp: on_response_def response_json_def split: if_splits option.splits)

lemma run_tasks_names:
  "fst (run_tasks ts events w) = Some (Inr results)
     \<Longrightarrow> map group_name results = map task_name ts"
proof (induction events arbitrary: ts w)
  case Nil
  then show ?case
    by (cases "gathered ts") (simp_all add: gathered_names)
next
  case (Cons e rest)
  obtain i r where e: "e = (i, r)" by (cases e)
  show ?case
  proof (cases "gathered ts")
    case (Some rs)
    with Cons.prems e show ?thesis by (simp add: gathered_names)
  next
    case None
    show ?thesis
    proof (cases "i < length ts")
      case False
      with None e Cons.prems have "fst (run_tasks ts rest w) = Some (Inr results)" by simp
      then show ?thesis by (rule Cons.IH)
    next
      case True
      show ?thesis
      proof (cases "ts ! i")
        case (Finished c)
        with True None e Cons.prems have "fst (run_tasks ts rest w) = Some (Inr results)" by simp
        then show ?thesis by (rule Cons.IH)
      next
        case (Waiting name req)
        show ?thesis
        proof (cases "on_response name r")
          case (Completed c)
          with Waiting True None e Cons.prems
          have "fst (run_tasks (ts[i := Finished c]) rest w) = Some (Inr results)" by simp
          then have "map group_name results = map task_name (ts[i := Finished c])"
            by (rule Cons.IH)
          also have "\<dots> = (map task_name ts)[i := group_name c]"
            by (simp add: map_update)
          also have "\<dots> = map task_name ts"
            using Waiting True on_response_name[OF Completed]
            by (simp add: list_update_same_conv)
          finally show ?thesis .
        next
          case Overloaded
          with Waiting True None e Cons.prems
          have "fst (run_tasks ts rest (post req (sleep 1 w))) = Some (Inr results)" by simp
          then show ?thesis by (rule Cons.IH)
        next
          case (Raised err)
          with Waiting True None e Cons.prems show ?thesis by simp
        qed
      qed
    qed
  qed
qed

lemma gathered_map_Finished: "gathered (map Finished results) = Some results"
  by (induction results) simp_all

lemma gathered_Some_map: "gathered ts = Some results \<Longrightarrow> ts = map Finished results"
proof (induction ts arbitrary: results)
  case Nil
  then show ?case by simp
next
  case (Cons t ts)
  then show ?case
    by (cases t) (auto split: option.splits)
qed

lemma gathered_Some_iff: "gathered ts = Some results \<longleftrightarrow> ts = map Finished results"
  using gathered_map_Finished gathered_Some_map by blast

lemma finish_gathered: "gathered ts = Some results \<Longrightarrow> finish ts e = ts"
proof -
  assume "gathered ts = Some results"
  then have ts: "ts = map Finished results" by (simp add: gathered_Some_iff)
  obtain i r where "e = (i, r)" by (cases e)
  then show ?thesis by (simp add: ts)
qed

lemma foldl_finish_gathered: "gathered ts = Some results \<Longrightarrow> foldl finish ts evs = ts"
  by (induction evs) (simp_all add: finish_gathered)

lemma run_tasks_all_ok:
  assumes "\<forall>e\<in>set evs. status (snd e) = 200 \<and> body (snd e) \<noteq> None"
  shows "run_tasks ts evs w = (map_option Inr (gathered (foldl finish ts evs)), w)"
  using assms
proof (induction evs arbitrary: ts)
  case Nil
  show ?case by (cases "gathered ts") simp_all
next
  case (Cons e rest)
  obtain i r where e: "e = (i, r)" by (cases e)
  from Cons.prems e have r: "status r = 200" and "body r \<noteq> None"
    and rest: "\<forall>e\<in>set rest. status (snd e) = 200 \<and> body (snd e) \<noteq> None"
    by simp_all
  then obtain c where c: "body r = Some c" by auto
  show ?case
  proof (cases "gathered ts")
    case (Some rs)
    then show ?thesis
      by (simp add: e foldl_finish_gathered finish_gathered[OF Some] del: finish.simps)
  next
    case None
    have "run_tasks ts ((i, r) # rest) w = run_tasks (finish ts (i, r)) rest w"
    proof (cases "i < length ts")
      case False
      with None show ?thesis by simp
    next
      case True
      show ?thesis
      proof (cases "ts ! i")
        case (Finished c)
        with True None show ?thesis by simp
      next
        case (Waiting name req)
        with True None r c show ?thesis by (simp add: on_response_decoded)
      qed
    qed
    with Cons.IH[OF rest, of "finish ts (i, r)"] e show ?thesis
      by (simp del: finish.simps run_tasks.simps)
  qed
qed

lemma foldl_finish_order:
  assumes "distinct order" and "\<forall>i\<in>set order. i < length ts \<and> (\<exists>req. ts ! i = Waiting (name i) req)"
      and "\<forall>i\<in>set order. body (answer i) = Some (c i)"
  shows "foldl finish ts (map (\<lambda>i. (i, answer i)) order)
           = map (\<lambda>i. if i \<in> set order
                       then Finished \<lparr>group_name = name i, completion = c i\<rparr>
                       else ts ! i) [0..<length ts]"
  using assms
proof (induction order arbitrary: ts)
  case Nil
  show ?case by (simp add: map_nth)
next
  case (Cons a rest)
  from Cons.prems(2) obtain req where a: "a < length ts" "ts ! a = Waiting (name a) req"
    by auto
  let ?ts = "ts[a := Finished \<lparr>group_name = name a, completion = c a\<rparr>]"
  from Cons.prems(3) have ca: "body (answer a) = Some (c a)" and cr: "\<forall>i\<in>set rest. body (answer i) = Some (c i)"
    by simp_all
  have fin: "finish ts (a, answer a) = ?ts" using a ca by simp
  from Cons.prems(1) have d: "distinct rest" and na: "a \<notin> set rest" by simp_all
  have w: "\<forall>i\<in>set rest. i < length ?ts \<and> (\<exists>req. ?ts ! i = Waiting (name i) req)"
  proof
    fix i assume i: "i \<in> set rest"
    with na have "i \<noteq> a" by auto
    with Cons.prems(2) i show "i < length ?ts \<and> (\<exists>req. ?ts ! i = Waiting (name i) req)"
      by simp
  qed
  have "foldl finish ts (map (\<lambda>i. (i, answer i)) (a # rest))
          = foldl finish ?ts (map (\<lambda>i. (i, answer i)) rest)"
    by (simp add: fin del: finish.simps)
  also have "\<dots> = map (\<lambda>i. if i \<in> set rest
                       then Finished \<lparr>group_name = name i, completion = c i\<rparr>
                       else ?ts ! i) [0..<length ?ts]"
    by (rule Cons.IH[OF d w cr])
  also have "\<dots> = map (\<lambda>i. if i \<in> set (a # rest)
                       then Finished \<lparr>group_name = name i, completion = c i\<rparr>
                       else ts ! i) [0..<length ts]"
    using a(1) by (auto simp: nth_list_update)
  finally show ?case .
qed

lemma start_tasks_waiting:
  "length (fst (start_tasks p mgs w)) = length mgs
   \<and> (\<forall>i<length mgs. \<exists>req. fst (start_tasks p mgs w) ! i = Waiting (fst (mgs ! i)) req)"
proof (induction mgs arbitrary: w)
  case Nil
  show ?case by simp
next
  case (Cons g gs)
  obtain t w1 where t: "start_task p g w = (t, w1)" by (cases "start_task p g w")
  obtain ts w2 where ts: "start_tasks p gs w1 = (ts, w2)" by (cases "start_tasks p gs w1")
  from t obtain req where tw: "t = Waiting (fst g) req"
    by (auto simp: start_task_def split: prod.splits)
  from Cons[of w1] ts have len: "length ts = length gs"
    and nth: "\<forall>i<length gs. \<exists>req. ts ! i = Waiting (fst (gs ! i)) req" by simp_all
  have "\<exists>req. (t # ts) ! i = Waiting (fst ((g # gs) ! i)) req" if "i < length (g # gs)" for i
    using that tw nth by (cases i) auto
  with len show ?case by (simp add: t ts)
qed

lemma get_completions_any_order:
  assumes "distinct order" and "set order = {0..<length mgs}"
      and "\<forall>i. status (answer i) = 200 \<and> body (answer i) = Some (c i)"
  shows "fst (get_completions p mgs (map (\<lambda>i. (i, answer i)) order) w)
           = Some (Inr (map (\<lambda>i. \<lparr>group_name = fst (mgs ! i), completion = c i\<rparr>)
                          [0..<length mgs]))"
proof -
  obtain ts w1 where st: "start_tasks p mgs w = (ts, w1)" by (cases "start_tasks p mgs w")
  from start_tasks_waiting[of p mgs w] st have len: "length ts = length mgs"
    and wait: "\<forall>i<length mgs. \<exists>req. ts ! i = Waiting (fst (mgs ! i)) req" by simp_all
  have pre: "\<forall>i\<in>set order. i < length ts \<and> (\<exists>req. ts ! i = Waiting (fst (mgs ! i)) req)"
    using assms(2) len wait by simp
  have ok: "\<forall>e\<in>set (map (\<lambda>i. (i, answer i)) order). status (snd e) = 200 \<and> body (snd e) \<noteq> None"
    using assms(3) by simp
  have bodies: "\<forall>i\<in>set order. body (answer i) = Some (c i)"
    using assms(3) by simp
  have "foldl finish ts (map (\<lambda>i. (i, answer i)) order)
          = map (\<lambda>i. if i \<in> set order
                      then Finished \<lparr>group_name = fst (mgs ! i), completion = c i\<rparr>
                      else ts ! i) [0..<length ts]"
    by (rule foldl_finish_order[OF assms(1) pre bodies])
  also have "\<dots> = map Finished
                     (map (\<lambda>i. \<lparr>group_name = fst (mgs ! i), completion = c i\<rparr>)
                        [0..<length mgs])"
    using assms(2) len by simp
  finally have "gathered (foldl finish ts (map (\<lambda>i. (i, answer i)) order))
          = Some (map (\<lambda>i. \<lparr>group_name = fst (mgs ! i), completion = c i\<rparr>)
                        [0..<length mgs])"
    by (simp only: gathered_Some_iff)
  then show ?thesis
    by (simp add: get_completions_def st run_tasks_all_ok[OF ok])
qed

lemma get_completions_names:
  assumes "distinct (map fst message_groups)"
      and "fst (get_completions p message_groups events w) = Some (Inr results)"
  shows "map group_name results = map fst message_groups
       \<and> length results = length message_groups
       \<and> (\<forall>name\<in>set (map fst message_groups).
            length (filter (\<lambda>c. group_name c = name) results) = 1)"
proof -
  obtain ts w1 where st: "start_tasks p message_groups w = (ts, w1)"
    by (cases "start_tasks p message_groups w")
  with assms(2) have "fst (run_tasks ts events w1) = Some (Inr results)"
    by (simp add: get_completions_def)
  then have "map group_name results = map task_name ts"
    by (rule run_tasks_names)
  also have "\<dots> = map fst message_groups"
    using start_tasks_names[of p message_groups w] st by simp
  finally have names: "map group_name results = map fst message_groups" .
  then have len: "length results = length message_groups"
    by (metis length_map)
  have "length (filter (\<lambda>c. group_name c = name) results) = 1"
    if "name \<in> set (map fst message_groups)" for name
  proof -
    have "length (filter (\<lambda>c. group_name c = name) results)
            = length (filter (\<lambda>k. k = name) (map group_name results))"
      by (simp add: filter_map comp_def)
    also have "\<dots> = length (filter (\<lambda>k. k = name) (map fst message_groups))"
      by (simp only: names)
    also have "\<dots> = 1"
      using assms(1) that
    proof (induction message_groups)
      case Nil
      then show ?case by simp
    next
      case (Cons g gs)
      show ?case
      proof (cases "fst g = name")
        case True
        with Cons.prems(1) have "name \<notin> set (map fst gs)" by auto
        then have "filter (\<lambda>k. k = name) (map fst gs) = []"
          by (auto simp: filter_empty_conv)
        with True show ?thesis by simp
      next
        case False
        with Cons.prems have "distinct (map fst gs)" "name \<in> set (map fst gs)" by auto
        from Cons.IH[OF this] False show ?thesis by simp
      qed
    qed
    finally show ?thesis .
  qed
  with names len show ?thesis by blast
qed

text \<open>
  Claim C1. For message groups with distinct names, whatever the order in which the
  answers arrive and whatever they are, the results that \<^verbatim>\<open>get_completions\<close> returns are
  one per group, the result at each position carrying the name of the group at that
  position, so each name occurs exactly once. And when every group is answered with a
  success that has a JSON body, in any order of arrival, the call returns, with the same
  list each time: the result of each group holds the decoded answer given to that group.
\<close>

theorem get_completions_one_result_per_group:
  assumes "distinct (map fst message_groups)"
  shows "(\<forall>events results.
            fst (get_completions p message_groups events w) = Some (Inr results) \<longrightarrow>
              map group_name results = map fst message_groups
            \<and> length results = length message_groups
            \<and> (\<forall>name\<in>set (map fst message_groups).
                 length (filter (\<lambda>c. group_name c = name) results) = 1))
       \<and> (\<forall>order answer c.
            distinct order \<and> set order = {0..<length message_groups}
            \<and> (\<forall>i. status (answer i) = 200 \<and> body (answer i) = Some (c i)) \<longrightarrow>
              fst (get_completions p message_groups (map (\<lambda>i. (i, answer i)) order) w)
                = Some (Inr (map (\<lambda>i. \<lparr>group_name = fst (message_groups ! i),
                                        completion = c i\<rparr>)
                               [0..<length message_groups])))"
  using get_completions_names[OF assms] get_completions_any_order by blast

lemma example_get_completions:
  "fst (get_completions example_provider example_groups example_events example_world)
     = Some (Inr example_results)"
  by (simp add: get_completions_def example_groups_def example_events_def example_results_def
        start_task_def prepare_request_world on_response_def response_json_def ok_response_def
        overloaded_response_def)

text \<open>Claim C1, witness: two groups, answered in the opposite order, one after a retry.\<close>

theorem get_completions_one_result_per_group_witness:
  "map group_name example_results = map fst example_groups
   \<and> fst (get_completions example_provider example_groups example_events example_world)
       = Some (Inr example_results)"
proof -
  have d: "distinct (map fst example_groups)"
    by (simp add: example_groups_def)
  from get_completions_one_result_per_group[OF d, of example_provider example_world,
         THEN conjunct1, rule_format, OF example_get_completions, THEN conjunct1]
       example_get_completions
  show ?thesis by (rule conjI)
qed


























subsection \<open>One conversation\<close>

lemma has_author_and_bodyD:
  assumes "has_author_and_body c"
  obtains user where "getitem_str c ''user'' = Inr user"
    and "getitem_str user ''login'' = Inr (author_login_of c)"
    and "getitem_str c ''body'' = Inr (body_of c)"
proof -
  from assms obtain login b where l: "comment_author c = Inr login" and b: "getitem_str c ''body'' = Inr b"
    by (auto simp: has_author_and_body_def split: sum.splits)
  from l obtain user where u: "getitem_str c ''user'' = Inr user" "getitem_str user ''login'' = Inr login"
    by (cases "getitem_str c ''user''") (auto simp: comment_author_def)
  from l b u that show ?thesis
    by (simp add: author_login_of_def body_of_def)
qed

lemma comments_loop_spec:
  assumes "\<forall>c\<in>set cs. has_author_and_body c"
  shows "comments_loop requester cs acc = Inr (acc @ map (comment_message requester) (kept cs))"
  using assms
proof (induction cs arbitrary: acc)
  case Nil
  show ?case by (simp add: kept_def)
next
  case (Cons c cs)
  from Cons.prems have c: "has_author_and_body c" and cs: "\<forall>c\<in>set cs. has_author_and_body c"
    by simp_all
  from c obtain user where u: "getitem_str c ''user'' = Inr user"
    "getitem_str user ''login'' = Inr (author_login_of c)"
    "getitem_str c ''body'' = Inr (body_of c)"
    by (rule has_author_and_bodyD)
  show ?case
    using Cons.IH[OF cs] u by (simp add: kept_def comment_message_def)
qed

lemma get_comments_spec:
  assumes "listed_comments session headers pull_request k = Some cs"
      and "\<forall>c\<in>set cs. has_author_and_body c"
  shows "bindE (getitem_str pull_request k) (\<lambda>data_url. get_comments session data_url headers requester)
           = Inr (map (comment_message requester) (kept cs))"
proof -
  from assms(1) obtain u where u: "getitem_str pull_request k = Inr (JStr u)"
    and s: "py_iter (session u headers) = Inr cs"
    by (auto simp: listed_comments_def split: sum.splits json.splits)
  show ?thesis
    using comments_loop_spec[OF assms(2), of requester "[]"]
    by (simp add: u s get_comments_def)
qed

lemma get_pull_request_pull_spec:
  assumes "has_author_and_body (session url headers)"
      and "listed_comments session headers (session url headers) ''comments_url'' = Some general"
      and "listed_comments session headers (session url headers) ''review_comments_url'' = Some review"
      and "\<forall>c\<in>set general. has_author_and_body c"
      and "\<forall>c\<in>set review. has_author_and_body c"
  shows "get_pull_request_pull session (JStr url) headers =
           Inr \<lparr>pull_url = url,
                pull_messages = body_messages (session url headers)
                  @ map (comment_message (author_login_of (session url headers))) (kept general)
                  @ map (comment_message (author_login_of (session url headers))) (kept review)\<rparr>"
proof -
  let ?pr = "session url headers"
  from assms(1) obtain user where u: "getitem_str ?pr ''user'' = Inr user"
    "getitem_str user ''login'' = Inr (author_login_of ?pr)"
    "getitem_str ?pr ''body'' = Inr (body_of ?pr)"
    by (rule has_author_and_bodyD)
  note g = get_comments_spec[OF assms(2,4), of "author_login_of ?pr"]
  note r = get_comments_spec[OF assms(3,5), of "author_login_of ?pr"]
  from g obtain cu where cu: "getitem_str ?pr ''comments_url'' = Inr cu"
    "get_comments session cu headers (author_login_of ?pr)
       = Inr (map (comment_message (author_login_of ?pr)) (kept general))"
    by (cases "getitem_str ?pr ''comments_url''") simp_all
  from r obtain ru where ru: "getitem_str ?pr ''review_comments_url'' = Inr ru"
    "get_comments session ru headers (author_login_of ?pr)
       = Inr (map (comment_message (author_login_of ?pr)) (kept review))"
    by (cases "getitem_str ?pr ''review_comments_url''") simp_all
  show ?thesis
    by (simp add: u cu ru body_messages_def Let_def)
qed

lemma example_conversation:
  "has_author_and_body (example_session ''api/pulls/1'' [])"
  "listed_comments example_session [] (example_session ''api/pulls/1'' []) ''comments_url''
     = Some [gh_comment ''reviewer'' (JStr ''mock_comment''),
             gh_comment ''student'' (JStr []),
             gh_comment ''student'' (JStr ''thanks'')]"
  "listed_comments example_session [] (example_session ''api/pulls/1'' []) ''review_comments_url''
     = Some [gh_comment ''reviewer'' JNull, gh_comment ''reviewer'' (JStr ''nit'')]"
  "has_author_and_body (gh_comment login b)"
  by (simp_all add: has_author_and_body_def comment_author_def listed_comments_def
        example_session_def gh_comment_def)

lemma example_fetch:
  "get_pull_request_pull example_session (JStr ''api/pulls/1'') [] = Inr example_pull"
  by (simp add: example_session_def gh_comment_def get_comments_def example_pull_def)

lemma conversation_contents:
  assumes "has_author_and_body (session url headers)"
      and "listed_comments session headers (session url headers) ''comments_url'' = Some general"
      and "listed_comments session headers (session url headers) ''review_comments_url'' = Some review"
      and "\<forall>c\<in>set general. has_author_and_body c"
      and "\<forall>c\<in>set review. has_author_and_body c"
  shows "\<exists>p. get_pull_request_pull session (JStr url) headers = Inr p
           \<and> pull_url p = url
           \<and> map content (pull_messages p)
               = filter (\<lambda>v. \<not> falsy v)
                   (body_of (session url headers) # map body_of general @ map body_of review)
           \<and> (\<forall>m\<in>set (pull_messages p). \<not> falsy (content m))"
proof -
  let ?pr = "session url headers"
  let ?ms = "body_messages ?pr
                  @ map (comment_message (author_login_of ?pr)) (kept general)
                  @ map (comment_message (author_login_of ?pr)) (kept review)"
  have c: "map content (map (comment_message r) (kept cs)) = filter (\<lambda>v. \<not> falsy v) (map body_of cs)" for r cs
    by (simp add: kept_def comment_message_def filter_map comp_def)
  have m: "map content ?ms
          = filter (\<lambda>v. \<not> falsy v) (body_of ?pr # map body_of general @ map body_of review)"
    using c[of "author_login_of ?pr" general] c[of "author_login_of ?pr" review]
    by (simp add: body_messages_def)
  have "\<not> falsy (content m)" if "m \<in> set ?ms" for m
  proof -
    from that have "content m \<in> set (map content ?ms)" by (simp only: set_map) (rule imageI)
    then show ?thesis unfolding m set_filter by blast
  qed
  with m show ?thesis
    using get_pull_request_pull_spec[OF assms] by simp
qed

lemma conversation_role_tags:
  assumes "has_author_and_body (session url headers)"
      and "listed_comments session headers (session url headers) ''comments_url'' = Some general"
      and "listed_comments session headers (session url headers) ''review_comments_url'' = Some review"
      and "\<forall>c\<in>set general. has_author_and_body c"
      and "\<forall>c\<in>set review. has_author_and_body c"
  shows "\<exists>p body_part comment_part.
           get_pull_request_pull session (JStr url) headers = Inr p
           \<and> pull_messages p = body_part @ comment_part
           \<and> body_part = (if falsy (body_of (session url headers)) then []
                           else [\<lparr>role = ''user'', content = body_of (session url headers)\<rparr>])
           \<and> list_all2
                (\<lambda>m c. content m = body_of c
                   \<and> (role m = ''user'') = (author_login_of c = author_login_of (session url headers))
                   \<and> (role m = ''assistant'') = (author_login_of c \<noteq> author_login_of (session url headers)))
                comment_part (kept general @ kept review)"
proof -
  let ?pr = "session url headers"
  let ?cm = "map (comment_message (author_login_of ?pr)) (kept general @ kept review)"
  have "list_all2
          (\<lambda>m c. content m = body_of c
             \<and> (role m = ''user'') = (author_login_of c = author_login_of ?pr)
             \<and> (role m = ''assistant'') = (author_login_of c \<noteq> author_login_of ?pr))
          ?cm (kept general @ kept review)"
    by (simp only: list_all2_map1) (rule list_all2_refl, simp add: comment_message_def)
  moreover have "get_pull_request_pull session (JStr url) headers
                   = Inr \<lparr>pull_url = url, pull_messages = body_messages ?pr @ ?cm\<rparr>"
    using get_pull_request_pull_spec[OF assms] by simp
  ultimately show ?thesis
    by (intro exI[of _ "\<lparr>pull_url = url, pull_messages = body_messages ?pr @ ?cm\<rparr>"]
              exI[of _ "body_messages ?pr"] exI[of _ ?cm])
       (simp add: body_messages_def)
qed

text \<open>Conversely, a fetch that returns has read payloads that carry author and body.\<close>

lemma bindE_InrD: "bindE x f = Inr y \<Longrightarrow> \<exists>v. x = Inr v \<and> f v = Inr y"
  by (cases x) simp_all

lemma has_author_and_bodyI:
  "getitem_str c ''user'' = Inr user \<Longrightarrow> getitem_str user ''login'' = Inr login
     \<Longrightarrow> getitem_str c ''body'' = Inr b \<Longrightarrow> has_author_and_body c"
  by (simp add: has_author_and_body_def comment_author_def)

lemma comments_loop_fetched:
  "comments_loop requester cs acc = Inr ms \<Longrightarrow> \<forall>c\<in>set cs. has_author_and_body c"
proof (induction cs arbitrary: acc)
  case Nil
  show ?case by simp
next
  case (Cons c cs)
  from Cons.prems obtain user where u: "getitem_str c ''user'' = Inr user"
    and 1: "bindE (getitem_str user ''login'') (\<lambda>author_login.
       let role_name = (if author_login = requester then ''user'' else ''assistant'') in
       bindE (getitem_str c ''body'') (\<lambda>content.
         if falsy content then comments_loop requester cs acc
         else comments_loop requester cs (acc @ [\<lparr>role = role_name, content = content\<rparr>]))) = Inr ms"
    by (auto dest!: bindE_InrD)
  from 1 obtain login where l: "getitem_str user ''login'' = Inr login"
    and 2: "bindE (getitem_str c ''body'') (\<lambda>content.
         if falsy content then comments_loop requester cs acc
         else comments_loop requester cs
                (acc @ [\<lparr>role = (if login = requester then ''user'' else ''assistant''),
                         content = content\<rparr>])) = Inr ms"
    by (auto dest!: bindE_InrD simp: Let_def)
  from 2 obtain b where b: "getitem_str c ''body'' = Inr b"
    and 3: "(if falsy b then comments_loop requester cs acc
         else comments_loop requester cs
                (acc @ [\<lparr>role = (if login = requester then ''user'' else ''assistant''),
                         content = b\<rparr>])) = Inr ms"
    by (auto dest!: bindE_InrD)
  from 3 have "\<forall>c\<in>set cs. has_author_and_body c"
    using Cons.IH by (cases "falsy b") auto
  with has_author_and_bodyI[OF u l b] show ?case by simp
qed

lemma get_comments_fetched:
  assumes "bindE (getitem_str pull_request k)
             (\<lambda>data_url. get_comments session data_url headers requester) = Inr ms"
  shows "\<exists>cs. listed_comments session headers pull_request k = Some cs
              \<and> (\<forall>c\<in>set cs. has_author_and_body c)"
proof -
  from assms obtain data_url where d: "getitem_str pull_request k = Inr data_url"
    and g: "get_comments session data_url headers requester = Inr ms"
    by (auto dest!: bindE_InrD)
  from g obtain payload where s: "session_get session data_url headers = Inr payload"
    and 1: "bindE (py_iter payload) (\<lambda>comments. comments_loop requester comments []) = Inr ms"
    unfolding get_comments_def by (auto dest!: bindE_InrD)
  from s obtain u where u: "data_url = JStr u" "payload = session u headers"
    by (cases data_url) auto
  from 1 obtain cs where cs: "py_iter payload = Inr cs" "comments_loop requester cs [] = Inr ms"
    by (auto dest!: bindE_InrD)
  from cs(2) have "\<forall>c\<in>set cs. has_author_and_body c" by (rule comments_loop_fetched)
  moreover have "listed_comments session headers pull_request k = Some cs"
    using d u cs(1) by (simp add: listed_comments_def)
  ultimately show ?thesis by blast
qed

lemma get_pull_request_pull_fetched:
  assumes "get_pull_request_pull session (JStr url) headers = Inr p"
  shows "has_author_and_body (session url headers)
       \<and> (\<exists>general review.
            listed_comments session headers (session url headers) ''comments_url'' = Some general
          \<and> listed_comments session headers (session url headers) ''review_comments_url'' = Some review
          \<and> (\<forall>c\<in>set general. has_author_and_body c)
          \<and> (\<forall>c\<in>set review. has_author_and_body c))"
proof -
  let ?pr = "session url headers"
  from assms obtain user where u: "getitem_str ?pr ''user'' = Inr user"
    and 1: "bindE (getitem_str user ''login'') (\<lambda>student_login.
      bindE (getitem_str ?pr ''body'') (\<lambda>pull_body.
        let messages = (if falsy pull_body then []
                        else [\<lparr>role = ''user'', content = pull_body\<rparr>]) in
        bindE (getitem_str ?pr ''comments_url'') (\<lambda>comments_url.
        bindE (get_comments session comments_url headers student_login) (\<lambda>comments.
        bindE (getitem_str ?pr ''review_comments_url'') (\<lambda>review_comments_url.
        bindE (get_comments session review_comments_url headers student_login) (\<lambda>review_comments.
          Inr \<lparr>pull_url = url,
               pull_messages = messages @ comments @ review_comments\<rparr>)))))) = Inr p"
    by (auto dest!: bindE_InrD simp: Let_def)
  from 1 obtain login where l: "getitem_str user ''login'' = Inr login"
    and 2: "bindE (getitem_str ?pr ''body'') (\<lambda>pull_body.
        let messages = (if falsy pull_body then []
                        else [\<lparr>role = ''user'', content = pull_body\<rparr>]) in
        bindE (getitem_str ?pr ''comments_url'') (\<lambda>comments_url.
        bindE (get_comments session comments_url headers login) (\<lambda>comments.
        bindE (getitem_str ?pr ''review_comments_url'') (\<lambda>review_comments_url.
        bindE (get_comments session review_comments_url headers login) (\<lambda>review_comments.
          Inr \<lparr>pull_url = url,
               pull_messages = messages @ comments @ review_comments\<rparr>))))) = Inr p"
    by (auto dest!: bindE_InrD)
  from 2 obtain b where b: "getitem_str ?pr ''body'' = Inr b"
    and 3: "bindE (getitem_str ?pr ''comments_url'') (\<lambda>comments_url.
        bindE (get_comments session comments_url headers login) (\<lambda>comments.
        bindE (getitem_str ?pr ''review_comments_url'') (\<lambda>review_comments_url.
        bindE (get_comments session review_comments_url headers login) (\<lambda>review_comments.
          Inr \<lparr>pull_url = url,
               pull_messages = (if falsy b then [] else [\<lparr>role = ''user'', content = b\<rparr>])
                                 @ comments @ review_comments\<rparr>)))) = Inr p"
    by (auto dest!: bindE_InrD simp: Let_def)
  from 3 obtain cu comments where cu: "getitem_str ?pr ''comments_url'' = Inr cu"
    and gc: "get_comments session cu headers login = Inr comments"
    and 4: "bindE (getitem_str ?pr ''review_comments_url'') (\<lambda>review_comments_url.
        bindE (get_comments session review_comments_url headers login) (\<lambda>review_comments.
          Inr \<lparr>pull_url = url,
               pull_messages = (if falsy b then [] else [\<lparr>role = ''user'', content = b\<rparr>])
                                 @ comments @ review_comments\<rparr>)) = Inr p"
    by (auto dest!: bindE_InrD)
  from 4 obtain ru review_comments where ru: "getitem_str ?pr ''review_comments_url'' = Inr ru"
    and gr: "get_comments session ru headers login = Inr review_comments"
    by (auto dest!: bindE_InrD)
  have "bindE (getitem_str ?pr ''comments_url'')
          (\<lambda>data_url. get_comments session data_url headers login) = Inr comments"
    using cu gc by simp
  from get_comments_fetched[OF this] obtain general where
    g: "listed_comments session headers ?pr ''comments_url'' = Some general"
       "\<forall>c\<in>set general. has_author_and_body c" by blast
  have "bindE (getitem_str ?pr ''review_comments_url'')
          (\<lambda>data_url. get_comments session data_url headers login) = Inr review_comments"
    using ru gr by simp
  from get_comments_fetched[OF this] obtain review where
    r: "listed_comments session headers ?pr ''review_comments_url'' = Some review"
       "\<forall>c\<in>set review. has_author_and_body c" by blast
  from has_author_and_bodyI[OF u l b] g r show ?thesis by blast
qed

text \<open>
  Claim C5. The contents of every fetched conversation are, in this order, the pull body,
  the bodies of the general comments in the order the server listed them and the bodies of
  the review comments in the order the server listed them, with every empty one left out;
  no message of the conversation has an empty content. And a pull and comments that carry
  their author and body are fetched, whatever their bodies: an empty body does not make the
  fetch raise.
\<close>

theorem conversation_order_and_no_empty:
  "(get_pull_request_pull session (JStr url) headers = Inr p \<longrightarrow>
      (\<exists>general review.
          listed_comments session headers (session url headers) ''comments_url'' = Some general
        \<and> listed_comments session headers (session url headers) ''review_comments_url''
            = Some review
        \<and> pull_url p = url
        \<and> map content (pull_messages p)
            = filter (\<lambda>v. \<not> falsy v)
                (body_of (session url headers) # map body_of general @ map body_of review)
        \<and> (\<forall>m\<in>set (pull_messages p). \<not> falsy (content m))))
   \<and> (has_author_and_body (session url headers)
        \<and> listed_comments session headers (session url headers) ''comments_url'' = Some cs
        \<and> listed_comments session headers (session url headers) ''review_comments_url'' = Some rs
        \<and> (\<forall>c\<in>set cs. has_author_and_body c)
        \<and> (\<forall>c\<in>set rs. has_author_and_body c) \<longrightarrow>
          (\<exists>q. get_pull_request_pull session (JStr url) headers = Inr q))"
proof (intro conjI impI)
  assume f: "get_pull_request_pull session (JStr url) headers = Inr p"
  from get_pull_request_pull_fetched[OF f] obtain general review where
    h: "has_author_and_body (session url headers)"
       "listed_comments session headers (session url headers) ''comments_url'' = Some general"
       "listed_comments session headers (session url headers) ''review_comments_url'' = Some review"
       "\<forall>c\<in>set general. has_author_and_body c"
       "\<forall>c\<in>set review. has_author_and_body c"
    by blast
  from conversation_contents[OF h] f h(2,3)
  show "\<exists>general review.
          listed_comments session headers (session url headers) ''comments_url'' = Some general
        \<and> listed_comments session headers (session url headers) ''review_comments_url''
            = Some review
        \<and> pull_url p = url
        \<and> map content (pull_messages p)
            = filter (\<lambda>v. \<not> falsy v)
                (body_of (session url headers) # map body_of general @ map body_of review)
        \<and> (\<forall>m\<in>set (pull_messages p). \<not> falsy (content m))"
    by auto
next
  assume "has_author_and_body (session url headers)
        \<and> listed_comments session headers (session url headers) ''comments_url'' = Some cs
        \<and> listed_comments session headers (session url headers) ''review_comments_url'' = Some rs
        \<and> (\<forall>c\<in>set cs. has_author_and_body c)
        \<and> (\<forall>c\<in>set rs. has_author_and_body c)"
  then have h: "has_author_and_body (session url headers)"
       "listed_comments session headers (session url headers) ''comments_url'' = Some cs"
       "listed_comments session headers (session url headers) ''review_comments_url'' = Some rs"
       "\<forall>c\<in>set cs. has_author_and_body c"
       "\<forall>c\<in>set rs. has_author_and_body c"
    by simp_all
  from conversation_contents[OF h]
  show "\<exists>q. get_pull_request_pull session (JStr url) headers = Inr q" by blast
qed

text \<open>Claim C5, witness: the example conversation; the comment with the empty body and
  the one without a body are not among its messages.\<close>

theorem conversation_order_and_no_empty_witness:
  "get_pull_request_pull example_session (JStr ''api/pulls/1'') [] = Inr example_pull
   \<and> map content (pull_messages example_pull)
       = [JStr ''mock_body'', JStr ''mock_comment'', JStr ''thanks'', JStr ''nit'']"
proof -
  from conversation_order_and_no_empty[of example_session "''api/pulls/1''" "[]" example_pull,
         THEN conjunct1, rule_format, OF example_fetch]
  obtain general review where
    g: "listed_comments example_session [] (example_session ''api/pulls/1'' []) ''comments_url''
          = Some general"
    and r: "listed_comments example_session [] (example_session ''api/pulls/1'' [])
              ''review_comments_url'' = Some review"
    and c: "map content (pull_messages example_pull)
       = filter (\<lambda>v. \<not> falsy v)
           (body_of (example_session ''api/pulls/1'' [])
            # map body_of general @ map body_of review)"
    by blast
  from g example_conversation(2)
  have general: "general = [gh_comment ''reviewer'' (JStr ''mock_comment''),
                            gh_comment ''student'' (JStr []),
                            gh_comment ''student'' (JStr ''thanks'')]"
    by simp
  from r example_conversation(3)
  have review: "review = [gh_comment ''reviewer'' JNull, gh_comment ''reviewer'' (JStr ''nit'')]"
    by simp
  from c have "map content (pull_messages example_pull)
       = [JStr ''mock_body'', JStr ''mock_comment'', JStr ''thanks'', JStr ''nit'']"
    unfolding general review
    by (simp add: body_of_def example_session_def gh_comment_def)
  with example_fetch show ?thesis by (rule conjI)
qed

text \<open>
  Claim C6. The messages of every fetched conversation are the message of the pull body,
  when the body is not empty, with role user, followed by one message per kept comment;
  the message of a comment has role user exactly when the comment's author login equals
  the login of the pull's requester, and role assistant exactly when it does not.
\<close>

theorem conversation_roles:
  "get_pull_request_pull session (JStr url) headers = Inr p \<longrightarrow>
     (\<exists>general review body_part comment_part.
         listed_comments session headers (session url headers) ''comments_url'' = Some general
       \<and> listed_comments session headers (session url headers) ''review_comments_url''
           = Some review
       \<and> pull_messages p = body_part @ comment_part
       \<and> body_part = (if falsy (body_of (session url headers)) then []
                       else [\<lparr>role = ''user'', content = body_of (session url headers)\<rparr>])
       \<and> list_all2
            (\<lambda>m c. content m = body_of c
               \<and> (role m = ''user'')
                   = (author_login_of c = author_login_of (session url headers))
               \<and> (role m = ''assistant'')
                   = (author_login_of c \<noteq> author_login_of (session url headers)))
            comment_part (kept general @ kept review))"
proof
  assume f: "get_pull_request_pull session (JStr url) headers = Inr p"
  from get_pull_request_pull_fetched[OF f] obtain general review where
    h: "has_author_and_body (session url headers)"
       "listed_comments session headers (session url headers) ''comments_url'' = Some general"
       "listed_comments session headers (session url headers) ''review_comments_url'' = Some review"
       "\<forall>c\<in>set general. has_author_and_body c"
       "\<forall>c\<in>set review. has_author_and_body c"
    by blast
  from conversation_role_tags[OF h] f h(2,3)
  show "\<exists>general review body_part comment_part.
         listed_comments session headers (session url headers) ''comments_url'' = Some general
       \<and> listed_comments session headers (session url headers) ''review_comments_url''
           = Some review
       \<and> pull_messages p = body_part @ comment_part
       \<and> body_part = (if falsy (body_of (session url headers)) then []
                       else [\<lparr>role = ''user'', content = body_of (session url headers)\<rparr>])
       \<and> list_all2
            (\<lambda>m c. content m = body_of c
               \<and> (role m = ''user'')
                   = (author_login_of c = author_login_of (session url headers))
               \<and> (role m = ''assistant'')
                   = (author_login_of c \<noteq> author_login_of (session url headers)))
            comment_part (kept general @ kept review)"
    by auto
qed

text \<open>Claim C6, witness: the roles in the example conversation, whose requester is
  \<^verbatim>\<open>student\<close>.\<close>

theorem conversation_roles_witness:
  "get_pull_request_pull example_session (JStr ''api/pulls/1'') [] = Inr example_pull
   \<and> map role (pull_messages example_pull) = [''user'', ''assistant'', ''user'', ''assistant'']
   \<and> author_login_of (example_session ''api/pulls/1'' []) = JStr ''student''"
proof -
  from conversation_roles[of example_session "''api/pulls/1''" "[]" example_pull,
         rule_format, OF example_fetch]
  obtain general review body_part comment_part where
    g: "listed_comments example_session [] (example_session ''api/pulls/1'' []) ''comments_url''
          = Some general"
    and r: "listed_comments example_session [] (example_session ''api/pulls/1'' [])
              ''review_comments_url'' = Some review"
    and ms: "pull_messages example_pull = body_part @ comment_part"
    and bp: "body_part = (if falsy (body_of (example_session ''api/pulls/1'' [])) then []
                 else [\<lparr>role = ''user'', content = body_of (example_session ''api/pulls/1'' [])\<rparr>])"
    and la: "list_all2
            (\<lambda>m c. content m = body_of c
               \<and> (role m = ''user'')
                   = (author_login_of c = author_login_of (example_session ''api/pulls/1'' []))
               \<and> (role m = ''assistant'')
                   = (author_login_of c \<noteq> author_login_of (example_session ''api/pulls/1'' [])))
            comment_part (kept general @ kept review)"
    by blast
  from g example_conversation(2)
  have general: "general = [gh_comment ''reviewer'' (JStr ''mock_comment''),
                            gh_comment ''student'' (JStr []),
                            gh_comment ''student'' (JStr ''thanks'')]"
    by simp
  from r example_conversation(3)
  have review: "review = [gh_comment ''reviewer'' JNull, gh_comment ''reviewer'' (JStr ''nit'')]"
    by simp
  have k: "kept general @ kept review
             = [gh_comment ''reviewer'' (JStr ''mock_comment''),
                gh_comment ''student'' (JStr ''thanks''),
                gh_comment ''reviewer'' (JStr ''nit'')]"
    unfolding general review by (simp add: kept_def body_of_def gh_comment_def)
  have b: "body_part = [\<lparr>role = ''user'', content = JStr ''mock_body''\<rparr>]"
    unfolding bp by (simp add: body_of_def example_session_def)
  have a: "author_login_of (example_session ''api/pulls/1'' []) = JStr ''student''"
    by (simp add: author_login_of_def comment_author_def example_session_def)
  from la obtain m1 m2 m3 where cp: "comment_part = [m1, m2, m3]"
    and r1: "(role m1 = ''assistant'')
               = (author_login_of (gh_comment ''reviewer'' (JStr ''mock_comment'')) \<noteq> JStr ''student'')"
    and r2: "(role m2 = ''user'')
               = (author_login_of (gh_comment ''student'' (JStr ''thanks'')) = JStr ''student'')"
    and r3: "(role m3 = ''assistant'')
               = (author_login_of (gh_comment ''reviewer'' (JStr ''nit'')) \<noteq> JStr ''student'')"
    unfolding k a by (auto simp: list_all2_Cons2)
  have l: "author_login_of (gh_comment login body) = JStr login" for login body
    by (simp add: author_login_of_def comment_author_def gh_comment_def)
  from r1 r2 r3 have "role m1 = ''assistant''" "role m2 = ''user''" "role m3 = ''assistant''"
    by (simp_all add: l)
  with ms b cp have "map role (pull_messages example_pull)
                       = [''user'', ''assistant'', ''user'', ''assistant'']"
    by simp
  with example_fetch a show ?thesis by blast
qed

subsection \<open>Phase 1: the pulls report\<close>










lemma gather_pulls_urls:
  "gather_pulls session headers urls = Inr fetched \<Longrightarrow> map (\<lambda>p. JStr (pull_url p)) fetched = urls"
proof (induction urls arbitrary: fetched)
  case Nil
  then show ?case by simp
next
  case (Cons u us)
  from Cons.prems obtain p ps where p: "get_pull_request_pull session u headers = Inr p"
    and ps: "gather_pulls session headers us = Inr ps" and f: "fetched = p # ps"
    by (cases "get_pull_request_pull session u headers";
        cases "gather_pulls session headers us") auto
  from p have "JStr (pull_url p) = u"
    by (cases u) (auto simp: bindE_def Let_def split: sum.splits)
  with Cons.IH[OF ps] f show ?case by simp
qed











subsection \<open>Phase 2: the summary report\<close>










end
